theory Spec2Isabelle
  imports Main
begin

section \<open>Data model\<close>

text \<open>
  Object ids are compared only for equality in the controllers
  (\<^verbatim>\<open>blog.author.toString() !== req.user.id\<close>), so an id is a natural number here.
  Dates are milliseconds since the epoch; every operation that reads the clock
  (\<^verbatim>\<open>new Date()\<close>, \<^verbatim>\<open>Date.now()\<close>) takes the reading as its argument \<open>now\<close>.
\<close>

type_synonym oid = nat
type_synonym date = nat

text \<open>\<^verbatim>\<open>role: { enum: ["user", "admin"] }\<close> and \<^verbatim>\<open>status: { enum: ["draft", "published", "archived"] }\<close>.\<close>

datatype role = User | Admin

datatype status = Draft | Published | Archived

text \<open>An element of a \<^verbatim>\<open>likes\<close> array: \<^verbatim>\<open>{ user, likedAt }\<close>.\<close>

record like =
  like_user :: oid
  likedAt :: date

text \<open>
  The User schema (the avatar, which has no validator, is left out). \<open>u_password\<close> holds the
  stored digest; it is \<open>None\<close> on a document whose password field has been removed.
\<close>

record user =
  u_id :: oid
  u_username :: string
  u_email :: string
  u_password :: "string option"
  u_firstName :: string
  u_lastName :: string
  u_bio :: string
  u_role :: role
  u_isActive :: bool
  u_lastLogin :: date
  u_updatedAt :: date

text \<open>
  The Blog schema. A post here has no tags, image or read time: \<open>tags\<close>, \<open>featuredImage\<close> and
  \<open>readTime\<close> are left out. \<open>publishedAt\<close> has no default, so it is optional.
\<close>

record blog =
  b_id :: oid
  b_title :: string
  b_content :: string
  b_summary :: string
  b_author :: oid
  b_category :: string
  b_status :: status
  b_isPublic :: bool
  b_views :: nat
  b_likes :: "like list"
  b_publishedAt :: "date option"
  b_createdAt :: date
  b_updatedAt :: date

text \<open>The Comment schema; \<open>parentComment\<close> defaults to \<^verbatim>\<open>null\<close>, \<open>editedAt\<close> and \<open>deletedAt\<close> have no default.\<close>

record comment =
  c_id :: oid
  c_content :: string
  c_author :: oid
  c_blog :: oid
  c_parentComment :: "oid option"
  c_likes :: "like list"
  c_isEdited :: bool
  c_editedAt :: "date option"
  c_isDeleted :: bool
  c_deletedAt :: "date option"
  c_createdAt :: date
  c_updatedAt :: date

text \<open>The three collections of the document store.\<close>

record store =
  users :: "user list"
  blogs :: "blog list"
  comments :: "comment list"

text \<open>\<^verbatim>\<open>req.user\<close> as the controllers use it: \<^verbatim>\<open>req.user.id\<close> and \<^verbatim>\<open>req.user.role\<close>.\<close>

record req_user =
  ru_id :: oid
  ru_role :: role

text \<open>
  \<^verbatim>\<open>new ErrorResponse(message, statusCode)\<close> handed to \<^verbatim>\<open>next\<close>; \<open>TypeError\<close> is the exception
  of a property read on \<^verbatim>\<open>null\<close>, \<open>ValidationError\<close> the rejection of a schema validator, and
  \<open>JsError\<close> a plain \<^verbatim>\<open>new Error(message)\<close>.
\<close>

datatype error = ErrorResponse string nat | TypeError | ValidationError | JsError string

section \<open>Strings, setters and patterns\<close>

text \<open>
  \<^verbatim>\<open>String.prototype.trim\<close> (the \<^verbatim>\<open>trim: true\<close> setter) removes leading and trailing white space,
  and \<^verbatim>\<open>toLowerCase\<close> (the \<^verbatim>\<open>lowercase: true\<close> setter) maps capital letters to small ones; both
  on ASCII here.
\<close>

definition is_space :: "char \<Rightarrow> bool" where
  "is_space c \<longleftrightarrow> c \<in> set [CHR '' '', CHR 0x09, CHR 0x0A, CHR 0x0B, CHR 0x0C, CHR 0x0D]"

definition js_trim :: "string \<Rightarrow> string" where
  "js_trim str = rev (dropWhile is_space (rev (dropWhile is_space str)))"

definition toLowerCase_char :: "char \<Rightarrow> char" where
  "toLowerCase_char c =
     (case map_of (zip ''ABCDEFGHIJKLMNOPQRSTUVWXYZ'' ''abcdefghijklmnopqrstuvwxyz'') c of
        None \<Rightarrow> c
      | Some l \<Rightarrow> l)"

definition js_toLowerCase :: "string \<Rightarrow> string" where
  "js_toLowerCase str = map toLowerCase_char str"

text \<open>
  Regular expressions and \<^verbatim>\<open>RegExp.prototype.test\<close> for a pattern anchored at both ends: the
  whole string is in the language of the pattern. \<open>deriv c r\<close> is what remains of \<open>r\<close> after
  the character \<open>c\<close>.
\<close>

datatype rexp = Zero | One | Atom "char \<Rightarrow> bool" | Plus rexp rexp | Times rexp rexp | Star rexp

fun nullable :: "rexp \<Rightarrow> bool" where
  "nullable Zero = False"
| "nullable One = True"
| "nullable (Atom P) = False"
| "nullable (Plus r1 r2) = (nullable r1 \<or> nullable r2)"
| "nullable (Times r1 r2) = (nullable r1 \<and> nullable r2)"
| "nullable (Star r) = True"

fun deriv :: "char \<Rightarrow> rexp \<Rightarrow> rexp" where
  "deriv c Zero = Zero"
| "deriv c One = Zero"
| "deriv c (Atom P) = (if P c then One else Zero)"
| "deriv c (Plus r1 r2) = Plus (deriv c r1) (deriv c r2)"
| "deriv c (Times r1 r2) =
     (if nullable r1 then Plus (Times (deriv c r1) r2) (deriv c r2) else Times (deriv c r1) r2)"
| "deriv c (Star r) = Times (deriv c r) (Star r)"

fun matches :: "rexp \<Rightarrow> string \<Rightarrow> bool" where
  "matches r [] = nullable r"
| "matches r (c # cs) = matches (deriv c r) cs"

text \<open>\<^verbatim>\<open>\w\<close>: a letter, a digit or the underscore.\<close>

definition is_word :: "char \<Rightarrow> bool" where
  "is_word c \<longleftrightarrow> c \<in> set ''ABCDEFGHIJKLMNOPQRSTUVWXYZabcdefghijklmnopqrstuvwxyz0123456789_''"

text \<open>
  The pattern of the e-mail validator: \<open>rx_words\<close> is \<^verbatim>\<open>\w+([.-]?\w+)*\<close>, \<open>rx_tld\<close> is
  \<^verbatim>\<open>\.\w{2,3}\<close>, and \<open>email_pattern\<close> is \<^verbatim>\<open>^\w+([.-]?\w+)*@\w+([.-]?\w+)*(\.\w{2,3})+$\<close>.
\<close>

definition rx_words :: rexp where
  "rx_words =
     Times (Times (Atom is_word) (Star (Atom is_word)))
       (Star (Times (Plus One (Atom (\<lambda>c. c = CHR ''.'' \<or> c = CHR ''-'')))
                    (Times (Atom is_word) (Star (Atom is_word)))))"

definition rx_tld :: rexp where
  "rx_tld =
     Times (Atom (\<lambda>c. c = CHR ''.''))
       (Times (Atom is_word) (Times (Atom is_word) (Plus One (Atom is_word))))"

definition email_pattern :: rexp where
  "email_pattern =
     Times rx_words (Times (Atom (\<lambda>c. c = CHR ''@'')) (Times rx_words (Times rx_tld (Star rx_tld))))"

section \<open>Like arrays\<close>

text \<open>\<^verbatim>\<open>Array.prototype.findIndex\<close>: the first index whose element satisfies the test (\<open>None\<close> for \<open>-1\<close>).\<close>

fun findIndex :: "('a \<Rightarrow> bool) \<Rightarrow> 'a list \<Rightarrow> nat option" where
  "findIndex P [] = None"
| "findIndex P (x # xs) = (if P x then Some 0 else map_option Suc (findIndex P xs))"

text \<open>\<^verbatim>\<open>arr.splice(i, 1)\<close>: remove the element at index \<open>i\<close>.\<close>

definition splice1 :: "nat \<Rightarrow> 'a list \<Rightarrow> 'a list" where
  "splice1 i xs = take i xs @ drop (Suc i) xs"

text \<open>
  The body shared by \<^verbatim>\<open>blogSchema.methods.toggleLike\<close> and \<^verbatim>\<open>commentSchema.methods.toggleLike\<close>:
  the returned flag and the array after the call. A pushed entry gets \<^verbatim>\<open>likedAt: Date.now\<close>.
\<close>

definition toggleLike_array :: "oid \<Rightarrow> date \<Rightarrow> like list \<Rightarrow> bool \<times> like list" where
  "toggleLike_array userId now ls =
     (case findIndex (\<lambda>l. like_user l = userId) ls of
        Some existingLikeIndex \<Rightarrow> (False, splice1 existingLikeIndex ls)
      | None \<Rightarrow> (True, ls @ [\<lparr>like_user = userId, likedAt = now\<rparr>]))"

text \<open>\<^verbatim>\<open>this.likes.some((like) => like.user.toString() === userId.toString())\<close>.\<close>

definition isLikedBy_array :: "oid \<Rightarrow> like list \<Rightarrow> bool" where
  "isLikedBy_array userId ls = list_ex (\<lambda>l. like_user l = userId) ls"

definition blog_toggleLike :: "oid \<Rightarrow> date \<Rightarrow> blog \<Rightarrow> bool \<times> blog" where
  "blog_toggleLike userId now b =
     (let r = toggleLike_array userId now (b_likes b) in (fst r, b\<lparr>b_likes := snd r\<rparr>))"

definition blog_isLikedBy :: "oid \<Rightarrow> blog \<Rightarrow> bool" where
  "blog_isLikedBy userId b = isLikedBy_array userId (b_likes b)"

text \<open>The virtual \<^verbatim>\<open>likeCount\<close>, and the accounts that like a post.\<close>

definition blog_likeCount :: "blog \<Rightarrow> nat" where
  "blog_likeCount b = length (b_likes b)"

definition blog_likers :: "blog \<Rightarrow> oid set" where
  "blog_likers b = like_user ` set (b_likes b)"

text \<open>The data-model invariant of a like array: at most one entry per account.\<close>

definition likes_unique :: "like list \<Rightarrow> bool" where
  "likes_unique ls = distinct (map like_user ls)"

section \<open>Collections and documents\<close>

text \<open>\<^verbatim>\<open>Model.findById(id)\<close> on each collection.\<close>

definition findById_user :: "store \<Rightarrow> oid \<Rightarrow> user option" where
  "findById_user s i = find (\<lambda>u. u_id u = i) (users s)"

definition findById_blog :: "store \<Rightarrow> oid \<Rightarrow> blog option" where
  "findById_blog s i = find (\<lambda>b. b_id b = i) (blogs s)"

definition findById_comment :: "store \<Rightarrow> oid \<Rightarrow> comment option" where
  "findById_comment s i = find (\<lambda>c. c_id c = i) (comments s)"

text \<open>
  Writing a loaded document back (\<^verbatim>\<open>doc.save()\<close> after the hooks, or the write of
  \<^verbatim>\<open>findByIdAndUpdate\<close>): the stored document with the same \<^verbatim>\<open>_id\<close> is replaced.
\<close>

definition replace_user :: "user \<Rightarrow> user list \<Rightarrow> user list" where
  "replace_user u us = map (\<lambda>d. if u_id d = u_id u then u else d) us"

definition replace_blog :: "blog \<Rightarrow> blog list \<Rightarrow> blog list" where
  "replace_blog b bs = map (\<lambda>d. if b_id d = b_id b then b else d) bs"

definition replace_comment :: "comment \<Rightarrow> comment list \<Rightarrow> comment list" where
  "replace_comment c cs = map (\<lambda>d. if c_id d = c_id c then c else d) cs"

text \<open>A new \<^verbatim>\<open>ObjectId\<close>: an id that no document of the collection has.\<close>

definition new_oid :: "oid list \<Rightarrow> oid" where
  "new_oid ids = Suc (fold max ids 0)"

text \<open>The \<^verbatim>\<open>_id\<close> index of every collection is unique.\<close>

definition ids_unique :: "store \<Rightarrow> bool" where
  "ids_unique s \<longleftrightarrow>
     distinct (map u_id (users s)) \<and> distinct (map b_id (blogs s)) \<and> distinct (map c_id (comments s))"

text \<open>
  \<^verbatim>\<open>parseInt(req.query.page, 10) || 1\<close>: an absent parameter or \<open>0\<close> gives the default
  (\<^verbatim>\<open>validatePagination\<close> has refused negative values before the controller runs).
\<close>

definition param_or :: "nat option \<Rightarrow> nat \<Rightarrow> nat" where
  "param_or q d = (case q of None \<Rightarrow> d | Some n \<Rightarrow> if n = 0 then d else n)"

text \<open>\<^verbatim>\<open>Math.ceil(total / limit)\<close> for a positive limit.\<close>

definition ceil_div :: "nat \<Rightarrow> nat \<Rightarrow> nat" where
  "ceil_div totalDocs limit = (totalDocs + limit - 1) div limit"

record 'a page =
  pg_count :: nat
  pg_total :: nat
  pg_currentPage :: nat
  pg_totalPages :: nat
  pg_hasNext :: bool
  pg_hasPrev :: bool
  pg_data :: "'a list"

definition mk_page :: "nat \<Rightarrow> nat \<Rightarrow> nat \<Rightarrow> 'a list \<Rightarrow> 'a page" where
  "mk_page page limit totalDocs xs =
     \<lparr>pg_count = length xs, pg_total = totalDocs, pg_currentPage = page,
      pg_totalPages = ceil_div totalDocs limit, pg_hasNext = (page < ceil_div totalDocs limit),
      pg_hasPrev = (1 < page), pg_data = xs\<rparr>"

text \<open>
  The visibility test of the controllers; they write its complement,
  \<^verbatim>\<open>blog.status !== "published" || !blog.isPublic\<close>.
\<close>

definition publicly_visible :: "blog \<Rightarrow> bool" where
  "publicly_visible b \<longleftrightarrow> b_status b = Published \<and> b_isPublic b"

section \<open>Blog model: validators and hooks\<close>

text \<open>
  The validators of the Blog schema on a document: \<open>title\<close> of 5 to 200 characters, \<open>content\<close>
  of at least 50, a \<open>summary\<close> (required) of at most 300 and a \<open>category\<close> of the
  enumeration. \<open>author\<close> is required too, and always present here.
\<close>

definition categories :: "string list" where
  "categories = [''technology'', ''lifestyle'', ''travel'', ''food'', ''health'', ''business'',
                 ''education'', ''entertainment'', ''sports'', ''other'']"

definition blog_valid :: "blog \<Rightarrow> bool" where
  "blog_valid b \<longleftrightarrow>
     5 \<le> length (b_title b) \<and> length (b_title b) \<le> 200 \<and> 50 \<le> length (b_content b)
     \<and> 1 \<le> length (b_summary b) \<and> length (b_summary b) \<le> 300
     \<and> b_category b \<in> set categories"

text \<open>
  \<^verbatim>\<open>blogSchema.pre("save")\<close>. The flag is \<^verbatim>\<open>this.isModified("status")\<close>; \<^verbatim>\<open>!this.publishedAt\<close>
  holds when the field is unset.
\<close>

definition blog_pre_save :: "bool \<Rightarrow> date \<Rightarrow> blog \<Rightarrow> blog" where
  "blog_pre_save statusModified now b =
     (let b1 = (if statusModified \<and> b_status b = Published \<and> b_publishedAt b = None
                then b\<lparr>b_publishedAt := Some now\<rparr> else b)
      in b1\<lparr>b_updatedAt := now\<rparr>)"

text \<open>
  \<^verbatim>\<open>blog.save()\<close> on a loaded document: validation of the loaded paths, which raises a
  \<^verbatim>\<open>ValidationError\<close>, then the save hook, then the write.
\<close>

definition blog_save :: "bool \<Rightarrow> date \<Rightarrow> blog \<Rightarrow> store \<Rightarrow> error + (blog \<times> store)" where
  "blog_save statusModified now b s =
     (if \<not> blog_valid b then Inl ValidationError
      else (let b' = blog_pre_save statusModified now b
            in Inr (b', s\<lparr>blogs := replace_blog b' (blogs s)\<rparr>)))"

text \<open>
  \<^verbatim>\<open>Blog.findByIdAndUpdate(id, update, { new: true })\<close>: the update is applied to the stored
  document and the updated document is returned. It is a query, so the \<^verbatim>\<open>save\<close> hooks do
  not run; \<^verbatim>\<open>timestamps: true\<close> refreshes \<open>updatedAt\<close>.
\<close>

definition findByIdAndUpdate_blog :: "oid \<Rightarrow> (blog \<Rightarrow> blog) \<Rightarrow> date \<Rightarrow> store \<Rightarrow> blog option \<times> store" where
  "findByIdAndUpdate_blog i upd now s =
     (case findById_blog s i of
        None \<Rightarrow> (None, s)
      | Some b \<Rightarrow> (let b' = (upd b)\<lparr>b_updatedAt := now\<rparr>
                  in (Some b', s\<lparr>blogs := replace_blog b' (blogs s)\<rparr>)))"

section \<open>Blog controller with the visibility policy\<close>

text \<open>
  The handlers of \<^verbatim>\<open>middlewares/blogController.js\<close>, which carry the visibility policy. The
  module has a default export only; \<^verbatim>\<open>routes/blogs.js\<close> imports named exports of
  \<^verbatim>\<open>controllers/blogController.js\<close>, the handlers of the section after this one.
\<close>

text \<open>
  \<^verbatim>\<open>req.body\<close> of a create or update request: each field may be absent. The route's
  \<^verbatim>\<open>validateBlogCreate\<close> and \<^verbatim>\<open>validateBlogUpdate\<close> check the shape of the fields they know and
  strip nothing, so a body may carry \<open>views\<close>, \<open>likes\<close> and \<open>publishedAt\<close> as well.
\<close>

record blog_body =
  bb_title :: "string option"
  bb_content :: "string option"
  bb_summary :: "string option"
  bb_author :: "oid option"
  bb_category :: "string option"
  bb_status :: "status option"
  bb_isPublic :: "bool option"
  bb_views :: "nat option"
  bb_likes :: "like list option"
  bb_publishedAt :: "date option"

text \<open>Casting a body to the schema applies the setters: the title is trimmed.\<close>

definition cast_blog_body :: "blog_body \<Rightarrow> blog_body" where
  "cast_blog_body body = body\<lparr>bb_title := map_option js_trim (bb_title body)\<rparr>"

text \<open>The validators of the schema on the fields that a cast body carries (\<^verbatim>\<open>runValidators: true\<close>).\<close>

definition blog_body_valid :: "blog_body \<Rightarrow> bool" where
  "blog_body_valid body \<longleftrightarrow>
     (case bb_title body of None \<Rightarrow> True | Some v \<Rightarrow> 5 \<le> length v \<and> length v \<le> 200)
     \<and> (case bb_content body of None \<Rightarrow> True | Some v \<Rightarrow> 50 \<le> length v)
     \<and> (case bb_summary body of None \<Rightarrow> True | Some v \<Rightarrow> 1 \<le> length v \<and> length v \<le> 300)
     \<and> (case bb_category body of None \<Rightarrow> True | Some v \<Rightarrow> v \<in> set categories)"

definition apply_blog_body :: "blog_body \<Rightarrow> blog \<Rightarrow> blog" where
  "apply_blog_body body b =
     b\<lparr>b_title := (case bb_title body of None \<Rightarrow> b_title b | Some v \<Rightarrow> v),
       b_content := (case bb_content body of None \<Rightarrow> b_content b | Some v \<Rightarrow> v),
       b_summary := (case bb_summary body of None \<Rightarrow> b_summary b | Some v \<Rightarrow> v),
       b_author := (case bb_author body of None \<Rightarrow> b_author b | Some v \<Rightarrow> v),
       b_category := (case bb_category body of None \<Rightarrow> b_category b | Some v \<Rightarrow> v),
       b_status := (case bb_status body of None \<Rightarrow> b_status b | Some v \<Rightarrow> v),
       b_isPublic := (case bb_isPublic body of None \<Rightarrow> b_isPublic b | Some v \<Rightarrow> v),
       b_views := (case bb_views body of None \<Rightarrow> b_views b | Some v \<Rightarrow> v),
       b_likes := (case bb_likes body of None \<Rightarrow> b_likes b | Some v \<Rightarrow> v),
       b_publishedAt := (case bb_publishedAt body of None \<Rightarrow> b_publishedAt b | Some v \<Rightarrow> Some v)\<rparr>"

text \<open>
  \<^verbatim>\<open>Blog.create(body)\<close>: the document is built from the schema defaults and the cast body,
  validated (\<open>title\<close>, \<open>content\<close>, \<open>summary\<close>, \<open>author\<close> and \<open>category\<close> are required) and
  saved, which runs the save hook; on a new document \<^verbatim>\<open>isModified("status")\<close> holds exactly
  when the body set the status.
\<close>

definition Blog_create :: "blog_body \<Rightarrow> date \<Rightarrow> store \<Rightarrow> error + (blog \<times> store)" where
  "Blog_create body now s =
     (case bb_author body of
        None \<Rightarrow> Inl ValidationError
      | Some author \<Rightarrow>
     (case bb_title body of
        None \<Rightarrow> Inl ValidationError
      | Some title \<Rightarrow>
     (case bb_content body of
        None \<Rightarrow> Inl ValidationError
      | Some content \<Rightarrow>
     (case bb_summary body of
        None \<Rightarrow> Inl ValidationError
      | Some summary \<Rightarrow>
     (case bb_category body of
        None \<Rightarrow> Inl ValidationError
      | Some category \<Rightarrow>
          (let doc = \<lparr>b_id = new_oid (map b_id (blogs s)), b_title = js_trim title,
                      b_content = content, b_summary = summary, b_author = author,
                      b_category = category,
                      b_status = (case bb_status body of None \<Rightarrow> Draft | Some v \<Rightarrow> v),
                      b_isPublic = (case bb_isPublic body of None \<Rightarrow> True | Some v \<Rightarrow> v),
                      b_views = (case bb_views body of None \<Rightarrow> 0 | Some v \<Rightarrow> v),
                      b_likes = (case bb_likes body of None \<Rightarrow> [] | Some v \<Rightarrow> v),
                      b_publishedAt = bb_publishedAt body,
                      b_createdAt = now, b_updatedAt = now\<rparr>
           in if \<not> blog_valid doc then Inl ValidationError
              else (let blog = blog_pre_save (bb_status body \<noteq> None) now doc
                    in Inr (blog, s\<lparr>blogs := blogs s @ [blog]\<rparr>))))))))"

text \<open>\<^verbatim>\<open>createBlog\<close> (POST /api/blogs): \<^verbatim>\<open>req.body.author = req.user.id; Blog.create(req.body)\<close>.\<close>

definition createBlog :: "req_user \<Rightarrow> blog_body \<Rightarrow> date \<Rightarrow> store \<Rightarrow> error + (blog \<times> store)" where
  "createBlog u body now s = Blog_create (body\<lparr>bb_author := Some (ru_id u)\<rparr>) now s"

text \<open>
  \<^verbatim>\<open>Blog.findByIdAndUpdate(id, body, { new: true, runValidators: true })\<close>: the body is cast
  and validated, then written as \<open>findByIdAndUpdate_blog\<close> writes.
\<close>

definition findByIdAndUpdate_blog_body ::
  "oid \<Rightarrow> blog_body \<Rightarrow> date \<Rightarrow> store \<Rightarrow> error + (blog option \<times> store)" where
  "findByIdAndUpdate_blog_body i body now s =
     (let body' = cast_blog_body body in
      if \<not> blog_body_valid body' then Inl ValidationError
      else Inr (findByIdAndUpdate_blog i (apply_blog_body body') now s))"

text \<open>\<^verbatim>\<open>updateBlog\<close> (PUT /api/blogs/:id).\<close>

definition updateBlog ::
  "oid \<Rightarrow> req_user \<Rightarrow> blog_body \<Rightarrow> date \<Rightarrow> store \<Rightarrow> error + (blog option \<times> store)" where
  "updateBlog i u body now s =
     (case findById_blog s i of
        None \<Rightarrow> Inl (ErrorResponse ''Blog not found'' 404)
      | Some blog \<Rightarrow>
          if b_author blog \<noteq> ru_id u \<and> ru_role u \<noteq> Admin
          then Inl (ErrorResponse ''Not authorized to update this blog'' 403)
          else
            (let body' = (if bb_author body \<noteq> None \<and> ru_role u \<noteq> Admin
                          then body\<lparr>bb_author := None\<rparr> else body)
             in findByIdAndUpdate_blog_body i body' now s))"

text \<open>\<^verbatim>\<open>toggleLikeBlog\<close> (PUT /api/blogs/:id/like); the response data is \<^verbatim>\<open>{ likeCount, isLiked }\<close>.\<close>

record like_response =
  lr_message :: string
  lr_likeCount :: nat
  lr_isLiked :: bool

definition toggleLikeBlog :: "oid \<Rightarrow> req_user \<Rightarrow> date \<Rightarrow> store \<Rightarrow> error + (like_response \<times> store)" where
  "toggleLikeBlog i u now s =
     (case findById_blog s i of
        None \<Rightarrow> Inl (ErrorResponse ''Blog not found'' 404)
      | Some blog \<Rightarrow>
          if b_status blog \<noteq> Published \<or> \<not> b_isPublic blog
          then Inl (ErrorResponse ''Cannot like this blog'' 400)
          else
            (let (isLiked, blog1) = blog_toggleLike (ru_id u) now blog
             in case blog_save False now blog1 s of
                  Inl e \<Rightarrow> Inl e
                | Inr (blog2, s') \<Rightarrow>
                    Inr (\<lparr>lr_message = (if isLiked then ''Blog liked'' else ''Blog unliked''),
                          lr_likeCount = length (b_likes blog2), lr_isLiked = isLiked\<rparr>, s')))"

text \<open>
  \<^verbatim>\<open>getBlog\<close> (GET /api/blogs/:id). \<^verbatim>\<open>populate("author")\<close> replaces the author id by the
  account, or by \<^verbatim>\<open>null\<close> when no account has that id; \<^verbatim>\<open>blog.author._id\<close> on \<^verbatim>\<open>null\<close> throws.
  The response data is the document with \<open>likeCount\<close> and \<open>isLiked\<close>.
\<close>

record blog_response =
  br_blog :: blog
  br_author :: "user option"
  br_likeCount :: nat
  br_isLiked :: bool

definition getBlog_authorized :: "req_user option \<Rightarrow> blog \<Rightarrow> user option \<Rightarrow> error option" where
  "getBlog_authorized ru blog author =
     (if b_status blog \<noteq> Published \<or> \<not> b_isPublic blog then
        (case ru of
           None \<Rightarrow> Some (ErrorResponse ''Not authorized to view this blog'' 403)
         | Some u \<Rightarrow>
             (case author of
                None \<Rightarrow> Some TypeError
              | Some a \<Rightarrow>
                  if ru_id u \<noteq> u_id a \<and> ru_role u \<noteq> Admin
                  then Some (ErrorResponse ''Not authorized to view this blog'' 403)
                  else None))
      else None)"

text \<open>The test before the view increment: \<open>Inr True\<close> when the view is counted.\<close>

definition getBlog_counts_view :: "req_user option \<Rightarrow> blog \<Rightarrow> user option \<Rightarrow> error + bool" where
  "getBlog_counts_view ru blog author =
     (if b_status blog = Published then
        (case ru of
           None \<Rightarrow> Inr True
         | Some u \<Rightarrow>
             (case author of
                None \<Rightarrow> Inl TypeError
              | Some a \<Rightarrow> Inr (ru_id u \<noteq> u_id a)))
      else Inr False)"

definition getBlog :: "oid \<Rightarrow> req_user option \<Rightarrow> date \<Rightarrow> store \<Rightarrow> error + (blog_response \<times> store)" where
  "getBlog i ru now s =
     (case find (\<lambda>b. b_id b = i \<and> (ru = None \<longrightarrow> b_status b = Published \<and> b_isPublic b)) (blogs s) of
        None \<Rightarrow> Inl (ErrorResponse ''Blog not found'' 404)
      | Some blog \<Rightarrow>
          (let author = findById_user s (b_author blog) in
           case getBlog_authorized ru blog author of
             Some e \<Rightarrow> Inl e
           | None \<Rightarrow>
               (case getBlog_counts_view ru blog author of
                  Inl e \<Rightarrow> Inl e
                | Inr counted \<Rightarrow>
                    (let s' = (if counted
                               then snd (findByIdAndUpdate_blog i (\<lambda>b. b\<lparr>b_views := b_views b + 1\<rparr>) now s)
                               else s);
                         blog' = (if counted then blog\<lparr>b_views := b_views blog + 1\<rparr> else blog);
                         isLiked = (case ru of None \<Rightarrow> False | Some u \<Rightarrow> blog_isLikedBy (ru_id u) blog')
                     in Inr (\<lparr>br_blog = blog', br_author = author,
                              br_likeCount = length (b_likes blog'), br_isLiked = isLiked\<rparr>, s')))))"

text \<open>
  \<^verbatim>\<open>deleteBlog\<close> (DELETE /api/blogs/:id): \<^verbatim>\<open>Comment.deleteMany({ blog: id })\<close>, then
  \<^verbatim>\<open>blog.deleteOne()\<close>, which removes the document with the blog's \<^verbatim>\<open>_id\<close>.
\<close>

definition deleteMany_comments_of_blog :: "oid \<Rightarrow> store \<Rightarrow> store" where
  "deleteMany_comments_of_blog i s = s\<lparr>comments := filter (\<lambda>c. c_blog c \<noteq> i) (comments s)\<rparr>"

definition deleteOne_blog :: "blog \<Rightarrow> store \<Rightarrow> store" where
  "deleteOne_blog b s = s\<lparr>blogs := filter (\<lambda>d. b_id d \<noteq> b_id b) (blogs s)\<rparr>"

definition deleteBlog :: "oid \<Rightarrow> req_user \<Rightarrow> store \<Rightarrow> error + store" where
  "deleteBlog i u s =
     (case findById_blog s i of
        None \<Rightarrow> Inl (ErrorResponse ''Blog not found'' 404)
      | Some blog \<Rightarrow>
          if b_author blog \<noteq> ru_id u \<and> ru_role u \<noteq> Admin
          then Inl (ErrorResponse ''Not authorized to delete this blog'' 403)
          else Inr (deleteOne_blog blog (deleteMany_comments_of_blog i s)))"

section \<open>Blog controller behind the routes\<close>

text \<open>
  The handlers that \<^verbatim>\<open>routes/blogs.js\<close> imports: the named exports \<^verbatim>\<open>getBlog\<close>,
  \<^verbatim>\<open>updateBlog\<close>, \<^verbatim>\<open>deleteBlog\<close> and \<^verbatim>\<open>toggleLikeBlog\<close> of the second blog controller. They
  have the names of the handlers above and are prefixed with \<open>routed_\<close> here.
\<close>

text \<open>
  \<^verbatim>\<open>getBlog\<close> (GET /api/blogs/:id): \<^verbatim>\<open>Blog.findById(id).populate("author", "name")\<close>, 404 when
  there is no such post, the post otherwise. The caller, whom \<^verbatim>\<open>optionalAuth\<close> has put into
  \<^verbatim>\<open>req.user\<close>, is not looked at, and nothing is written. \<^verbatim>\<open>populate\<close> puts the account in
  the author's place (of its fields, the selection leaves the id), or \<^verbatim>\<open>null\<close> when no
  account has that id.
\<close>

record routed_blog_response =
  rr_blog :: blog
  rr_author :: "oid option"

definition routed_getBlog ::
  "oid \<Rightarrow> req_user option \<Rightarrow> store \<Rightarrow> error + (routed_blog_response \<times> store)" where
  "routed_getBlog i ru s =
     (case findById_blog s i of
        None \<Rightarrow> Inl (ErrorResponse ''Blog not found'' 404)
      | Some blog \<Rightarrow>
          Inr (\<lparr>rr_blog = blog, rr_author = map_option u_id (findById_user s (b_author blog))\<rparr>, s))"

text \<open>\<^verbatim>\<open>updateBlog\<close> (PUT /api/blogs/:id): the owner only, and the body as it comes.\<close>

definition routed_updateBlog ::
  "oid \<Rightarrow> req_user \<Rightarrow> blog_body \<Rightarrow> date \<Rightarrow> store \<Rightarrow> error + (blog option \<times> store)" where
  "routed_updateBlog i u body now s =
     (case findById_blog s i of
        None \<Rightarrow> Inl (ErrorResponse ''Blog not found'' 404)
      | Some blog \<Rightarrow>
          if b_author blog \<noteq> ru_id u
          then Inl (ErrorResponse ''Not authorized to update this blog'' 401)
          else findByIdAndUpdate_blog_body i body now s)"

text \<open>\<^verbatim>\<open>deleteBlog\<close> (DELETE /api/blogs/:id): the owner only.\<close>

definition routed_deleteBlog :: "oid \<Rightarrow> req_user \<Rightarrow> store \<Rightarrow> error + store" where
  "routed_deleteBlog i u s =
     (case findById_blog s i of
        None \<Rightarrow> Inl (ErrorResponse ''Blog not found'' 404)
      | Some blog \<Rightarrow>
          if b_author blog \<noteq> ru_id u
          then Inl (ErrorResponse ''Not authorized to delete this blog'' 401)
          else Inr (deleteOne_blog blog (deleteMany_comments_of_blog i s)))"

text \<open>
  \<^verbatim>\<open>toggleLikeBlog\<close> (PUT /api/blogs/:id/like). It hands the bare id of the caller to
  \<^verbatim>\<open>includes\<close>, \<^verbatim>\<open>pull\<close> and \<^verbatim>\<open>push\<close> of the \<open>likes\<close> array, whose elements are
  \<^verbatim>\<open>{ user, likedAt }\<close> subdocuments. What these library methods do with a bare id is not
  fixed by this repository, so they are parameters. The response is \<^verbatim>\<open>{ liked, likes }\<close>.
\<close>

record bare_id_ops =
  bi_includes :: "like list \<Rightarrow> oid \<Rightarrow> bool"
  bi_pull :: "like list \<Rightarrow> oid \<Rightarrow> like list"
  bi_push :: "like list \<Rightarrow> oid \<Rightarrow> date \<Rightarrow> like list"

record routed_like_response =
  rl_liked :: bool
  rl_likes :: nat

definition routed_toggleLikeBlog ::
  "bare_id_ops \<Rightarrow> oid \<Rightarrow> req_user \<Rightarrow> date \<Rightarrow> store \<Rightarrow> error + (routed_like_response \<times> store)" where
  "routed_toggleLikeBlog ops i u now s =
     (case findById_blog s i of
        None \<Rightarrow> Inl (ErrorResponse ''Blog not found'' 404)
      | Some blog \<Rightarrow>
          (let userId = ru_id u;
               liked = bi_includes ops (b_likes blog) userId;
               blog1 = blog\<lparr>b_likes := (if liked then bi_pull ops (b_likes blog) userId
                                        else bi_push ops (b_likes blog) userId now)\<rparr>
           in case blog_save False now blog1 s of
                Inl e \<Rightarrow> Inl e
              | Inr (blog2, s') \<Rightarrow>
                  Inr (\<lparr>rl_liked = (\<not> liked), rl_likes = length (b_likes blog2)\<rparr>, s')))"

section \<open>Comment model: setters, validators, hooks\<close>

text \<open>
  \<^verbatim>\<open>content: { trim: true, minlength: 1, maxlength: 1000, required }\<close>. The trim setter is
  \<open>js_trim\<close>, and the validators see the trimmed value.
\<close>

definition content_valid :: "string \<Rightarrow> bool" where
  "content_valid c \<longleftrightarrow> 1 \<le> length c \<and> length c \<le> 1000"

text \<open>\<^verbatim>\<open>commentSchema.pre("save")\<close>; the flag is \<^verbatim>\<open>this.isModified("content")\<close>.\<close>

definition comment_pre_save :: "bool \<Rightarrow> date \<Rightarrow> comment \<Rightarrow> comment" where
  "comment_pre_save contentModified now c =
     (let c1 = (if contentModified then c\<lparr>c_isEdited := True, c_editedAt := Some now\<rparr> else c)
      in c1\<lparr>c_updatedAt := now\<rparr>)"

text \<open>\<^verbatim>\<open>comment.save()\<close> on a loaded document: validation, the save hook, the write.\<close>

definition comment_save :: "bool \<Rightarrow> date \<Rightarrow> comment \<Rightarrow> store \<Rightarrow> error + (comment \<times> store)" where
  "comment_save contentModified now c s =
     (if \<not> content_valid (c_content c) then Inl ValidationError
      else (let c' = comment_pre_save contentModified now c
            in Inr (c', s\<lparr>comments := replace_comment c' (comments s)\<rparr>)))"

text \<open>
  \<^verbatim>\<open>Comment.create({ content, author, blog, parentComment })\<close>: the document is built from the
  schema defaults and the given fields, validated and saved. Every path set on a new
  document counts as modified, so \<^verbatim>\<open>isModified("content")\<close> holds in the save hook.
\<close>

definition Comment_create ::
  "string \<Rightarrow> oid \<Rightarrow> oid \<Rightarrow> oid option \<Rightarrow> date \<Rightarrow> store \<Rightarrow> error + (comment \<times> store)" where
  "Comment_create content author blogId parent now s =
     (let doc = \<lparr>c_id = new_oid (map c_id (comments s)), c_content = js_trim content,
                 c_author = author, c_blog = blogId, c_parentComment = parent, c_likes = [],
                 c_isEdited = False, c_editedAt = None, c_isDeleted = False, c_deletedAt = None,
                 c_createdAt = now, c_updatedAt = now\<rparr>
      in if \<not> content_valid (c_content doc) then Inl ValidationError
         else (let c = comment_pre_save True now doc
               in Inr (c, s\<lparr>comments := comments s @ [c]\<rparr>)))"

text \<open>
  \<^verbatim>\<open>Comment.findByIdAndUpdate(id, { content }, { new: true, runValidators: true })\<close>: the
  validators run on the new content; the \<^verbatim>\<open>save\<close> hooks do not run.
\<close>

definition findByIdAndUpdate_comment ::
  "oid \<Rightarrow> string \<Rightarrow> date \<Rightarrow> store \<Rightarrow> error + (comment option \<times> store)" where
  "findByIdAndUpdate_comment i content now s =
     (let v = js_trim content in
      if \<not> content_valid v then Inl ValidationError
      else (case findById_comment s i of
              None \<Rightarrow> Inr (None, s)
            | Some c \<Rightarrow> (let c' = c\<lparr>c_content := v, c_updatedAt := now\<rparr>
                        in Inr (Some c', s\<lparr>comments := replace_comment c' (comments s)\<rparr>))))"

text \<open>
  \<^verbatim>\<open>commentSchema.methods.softDelete\<close>. Assigning a value equal to the current one does not
  mark a path modified, so \<^verbatim>\<open>isModified("content")\<close> holds in the save hook unless the
  content already was the tombstone text.
\<close>

definition tombstone :: string where
  "tombstone = ''[Comment deleted]''"

definition softDelete :: "date \<Rightarrow> comment \<Rightarrow> store \<Rightarrow> error + (comment \<times> store)" where
  "softDelete now c s =
     comment_save (c_content c \<noteq> tombstone) now
       (c\<lparr>c_isDeleted := True, c_deletedAt := Some now, c_content := tombstone\<rparr>) s"

text \<open>The document that \<open>softDelete\<close> hands to the write, after the save hook.\<close>

definition tombstoned :: "date \<Rightarrow> comment \<Rightarrow> comment" where
  "tombstoned now c =
     comment_pre_save (c_content c \<noteq> tombstone) now
       (c\<lparr>c_isDeleted := True, c_deletedAt := Some now, c_content := tombstone\<rparr>)"

section \<open>Comment controller\<close>

text \<open>\<^verbatim>\<open>Comment.findOne({ _id: id, isDeleted: false })\<close>.\<close>

definition findOne_live_comment :: "store \<Rightarrow> oid \<Rightarrow> comment option" where
  "findOne_live_comment s i = find (\<lambda>c. c_id c = i \<and> \<not> c_isDeleted c) (comments s)"

text \<open>
  Who may read the comments of a post, as \<^verbatim>\<open>getComments\<close> and \<^verbatim>\<open>getCommentReplies\<close> write it:
  anyone when the post is published and public, otherwise its owner or an admin.
\<close>

definition may_read_comments :: "req_user option \<Rightarrow> blog \<Rightarrow> bool" where
  "may_read_comments ru blog \<longleftrightarrow>
     \<not> (b_status blog \<noteq> Published \<or> \<not> b_isPublic blog) \<or>
     (case ru of None \<Rightarrow> False
      | Some u \<Rightarrow> \<not> (ru_id u \<noteq> b_author blog \<and> ru_role u \<noteq> Admin))"

text \<open>\<^verbatim>\<open>getComments\<close> (GET /api/blogs/:blogId/comments): newest first, then \<^verbatim>\<open>slice(skip, skip + limit)\<close>.\<close>

definition getComments ::
  "oid \<Rightarrow> nat option \<Rightarrow> nat option \<Rightarrow> req_user option \<Rightarrow> store \<Rightarrow> error + comment page" where
  "getComments blogId qpage qlimit ru s =
     (let page = param_or qpage 1; limit = param_or qlimit 10 in
      case findById_blog s blogId of
        None \<Rightarrow> Inl (ErrorResponse ''Blog not found'' 404)
      | Some blog \<Rightarrow>
          if \<not> may_read_comments ru blog
          then Inl (ErrorResponse ''Not authorized to view comments for this blog'' 403)
          else
            (let found = rev (sort_key c_createdAt
                           (filter (\<lambda>c. c_blog c = blogId \<and> \<not> c_isDeleted c) (comments s)));
                 totalDocs = length found;
                 skip = (page - 1) * limit;
                 paginatedComments = take limit (drop skip found)
             in Inr (mk_page page limit totalDocs paginatedComments)))"

text \<open>\<^verbatim>\<open>createComment\<close> (POST /api/blogs/:blogId/comments).\<close>

definition createComment ::
  "oid \<Rightarrow> req_user \<Rightarrow> string \<Rightarrow> oid option \<Rightarrow> date \<Rightarrow> store \<Rightarrow> error + (comment \<times> store)" where
  "createComment blogId u content parent now s =
     (case findById_blog s blogId of
        None \<Rightarrow> Inl (ErrorResponse ''Blog not found'' 404)
      | Some blog \<Rightarrow>
          if b_status blog \<noteq> Published \<or> \<not> b_isPublic blog
          then Inl (ErrorResponse ''Cannot comment on this blog'' 400)
          else if (case parent of
                     None \<Rightarrow> False
                   | Some p \<Rightarrow> find (\<lambda>c. c_id c = p \<and> c_blog c = blogId \<and> \<not> c_isDeleted c)
                                (comments s) = None)
          then Inl (ErrorResponse ''Parent comment not found'' 404)
          else Comment_create content (ru_id u) blogId parent now s)"

text \<open>\<^verbatim>\<open>updateComment\<close> (PUT /api/comments/:id).\<close>

definition updateComment ::
  "oid \<Rightarrow> req_user \<Rightarrow> string \<Rightarrow> date \<Rightarrow> store \<Rightarrow> error + (comment option \<times> store)" where
  "updateComment i u content now s =
     (case findOne_live_comment s i of
        None \<Rightarrow> Inl (ErrorResponse ''Comment not found'' 404)
      | Some comment \<Rightarrow>
          if c_author comment \<noteq> ru_id u \<and> ru_role u \<noteq> Admin
          then Inl (ErrorResponse ''Not authorized to update this comment'' 403)
          else findByIdAndUpdate_comment i content now s)"

text \<open>\<^verbatim>\<open>deleteComment\<close> (DELETE /api/comments/:id).\<close>

definition deleteComment :: "oid \<Rightarrow> req_user \<Rightarrow> date \<Rightarrow> store \<Rightarrow> error + store" where
  "deleteComment i u now s =
     (case findOne_live_comment s i of
        None \<Rightarrow> Inl (ErrorResponse ''Comment not found'' 404)
      | Some comment \<Rightarrow>
          if c_author comment \<noteq> ru_id u \<and> ru_role u \<noteq> Admin
          then Inl (ErrorResponse ''Not authorized to delete this comment'' 403)
          else (case softDelete now comment s of
                  Inl e \<Rightarrow> Inl e
                | Inr (c', s') \<Rightarrow> Inr s'))"

text \<open>
  \<^verbatim>\<open>getCommentReplies\<close> (GET /api/comments/:id/replies). \<^verbatim>\<open>populate("blog")\<close> gives the post, or
  \<^verbatim>\<open>null\<close> when it is gone, and \<^verbatim>\<open>blog.status\<close> on \<^verbatim>\<open>null\<close> throws. The replies are sorted
  oldest first before \<open>skip\<close> and \<open>limit\<close> apply.
\<close>

record reply_view =
  rv_comment :: comment
  rv_likeCount :: nat
  rv_isLiked :: bool

definition getCommentReplies ::
  "oid \<Rightarrow> nat option \<Rightarrow> nat option \<Rightarrow> req_user option \<Rightarrow> store \<Rightarrow> error + reply_view page" where
  "getCommentReplies i qpage qlimit ru s =
     (let page = param_or qpage 1; limit = param_or qlimit 10; skip = (page - 1) * limit in
      case findOne_live_comment s i of
        None \<Rightarrow> Inl (ErrorResponse ''Comment not found'' 404)
      | Some parentComment \<Rightarrow>
          (case findById_blog s (c_blog parentComment) of
             None \<Rightarrow> Inl TypeError
           | Some blog \<Rightarrow>
               if \<not> may_read_comments ru blog
               then Inl (ErrorResponse ''Not authorized to view replies'' 403)
               else
                 (let matching = sort_key c_createdAt
                        (filter (\<lambda>c. c_parentComment c = Some i \<and> \<not> c_isDeleted c) (comments s));
                      replies = take limit (drop skip matching);
                      repliesWithCounts = map (\<lambda>reply.
                          \<lparr>rv_comment = reply, rv_likeCount = length (c_likes reply),
                           rv_isLiked = (case ru of None \<Rightarrow> False
                                         | Some u \<Rightarrow> isLikedBy_array (ru_id u) (c_likes reply))\<rparr>) replies;
                      totalDocs = length matching
                  in Inr (mk_page page limit totalDocs repliesWithCounts))))"

section \<open>Accounts and authentication\<close>

text \<open>
  The credential and token primitives are libraries (\<^verbatim>\<open>bcryptjs\<close>, \<^verbatim>\<open>jsonwebtoken\<close>); the
  operations take them as parameters. The signing key and the expiry come from the
  environment and are fixed inside \<open>cr_sign\<close>.
\<close>

record jwt_payload =
  jwt_id :: oid
  jwt_username :: string
  jwt_role :: role

record crypto =
  cr_hash :: "string \<Rightarrow> string"
  cr_compare :: "string \<Rightarrow> string \<Rightarrow> bool"
  cr_sign :: "jwt_payload \<Rightarrow> string"

text \<open>
  The validators of the User schema on a document: \<open>username\<close> of 3 to 30 characters, an
  \<open>email\<close> that the pattern accepts, a \<open>password\<close> of at least 6 characters (the stored
  digest on a loaded document), \<open>firstName\<close> and \<open>lastName\<close> of 1 to 50 and a \<open>bio\<close> of at most
  500.
\<close>

definition user_valid :: "user \<Rightarrow> bool" where
  "user_valid u \<longleftrightarrow>
     3 \<le> length (u_username u) \<and> length (u_username u) \<le> 30
     \<and> 1 \<le> length (u_email u) \<and> matches email_pattern (u_email u)
     \<and> (case u_password u of None \<Rightarrow> False | Some digest \<Rightarrow> 6 \<le> length digest)
     \<and> 1 \<le> length (u_firstName u) \<and> length (u_firstName u) \<le> 50
     \<and> 1 \<le> length (u_lastName u) \<and> length (u_lastName u) \<le> 50
     \<and> length (u_bio u) \<le> 500"

text \<open>The two \<^verbatim>\<open>userSchema.pre("save")\<close> hooks; the flag is \<^verbatim>\<open>this.isModified("password")\<close>.\<close>

definition user_pre_save :: "crypto \<Rightarrow> bool \<Rightarrow> date \<Rightarrow> user \<Rightarrow> user" where
  "user_pre_save cr passwordModified now u =
     (let u1 = (if \<not> passwordModified then u
                else u\<lparr>u_password := map_option (cr_hash cr) (u_password u)\<rparr>)
      in u1\<lparr>u_updatedAt := now\<rparr>)"

text \<open>
  \<^verbatim>\<open>user.save()\<close> on a loaded document: validation of the loaded paths, which raises a
  \<^verbatim>\<open>ValidationError\<close>, then the save hooks, then the write.
\<close>

definition user_save :: "crypto \<Rightarrow> bool \<Rightarrow> date \<Rightarrow> user \<Rightarrow> store \<Rightarrow> error + (user \<times> store)" where
  "user_save cr passwordModified now u s =
     (if \<not> user_valid u then Inl ValidationError
      else (let u' = user_pre_save cr passwordModified now u
            in Inr (u', s\<lparr>users := replace_user u' (users s)\<rparr>)))"

text \<open>\<^verbatim>\<open>userSchema.methods.comparePassword\<close> and \<^verbatim>\<open>generateToken\<close>.\<close>

definition comparePassword :: "crypto \<Rightarrow> user \<Rightarrow> string \<Rightarrow> bool" where
  "comparePassword cr u candidatePassword =
     (case u_password u of None \<Rightarrow> False | Some digest \<Rightarrow> cr_compare cr candidatePassword digest)"

definition generateToken :: "crypto \<Rightarrow> user \<Rightarrow> string" where
  "generateToken cr u = cr_sign cr \<lparr>jwt_id = u_id u, jwt_username = u_username u, jwt_role = u_role u\<rparr>"

text \<open>
  \<^verbatim>\<open>findOne({ email, isActive: true })\<close>. The filter is cast to the schema, which applies the
  setters of \<open>email\<close> (\<^verbatim>\<open>trim: true, lowercase: true\<close>) to the value looked for.
\<close>

definition findOne_active_user :: "store \<Rightarrow> string \<Rightarrow> user option" where
  "findOne_active_user s email =
     find (\<lambda>u. u_email u = js_toLowerCase (js_trim email) \<and> u_isActive u) (users s)"

text \<open>\<^verbatim>\<open>userSchema.statics.findByCredentials\<close>; it throws \<^verbatim>\<open>new Error("Invalid credentials")\<close>.\<close>

definition findByCredentials :: "crypto \<Rightarrow> string \<Rightarrow> string \<Rightarrow> store \<Rightarrow> error + user" where
  "findByCredentials cr email password s =
     (case findOne_active_user s email of
        None \<Rightarrow> Inl (JsError ''Invalid credentials'')
      | Some u \<Rightarrow>
          if \<not> comparePassword cr u password then Inl (JsError ''Invalid credentials'')
          else Inr u)"

text \<open>\<^verbatim>\<open>sendTokenResponse\<close>: the token, and the account with its password field removed.\<close>

record auth_response =
  ar_statusCode :: nat
  ar_token :: string
  ar_data :: user

definition sendTokenResponse :: "crypto \<Rightarrow> user \<Rightarrow> nat \<Rightarrow> auth_response" where
  "sendTokenResponse cr u statusCode =
     \<lparr>ar_statusCode = statusCode, ar_token = generateToken cr u, ar_data = u\<lparr>u_password := None\<rparr>\<rparr>"

text \<open>\<^verbatim>\<open>login\<close> (POST /api/auth/login): whatever is thrown inside \<^verbatim>\<open>try\<close> becomes the same 401.\<close>

definition login :: "crypto \<Rightarrow> string \<Rightarrow> string \<Rightarrow> date \<Rightarrow> store \<Rightarrow> error + (auth_response \<times> store)" where
  "login cr email password now s =
     (case findByCredentials cr email password s of
        Inl e \<Rightarrow> Inl (ErrorResponse ''Invalid credentials'' 401)
      | Inr u \<Rightarrow>
          (case user_save cr False now (u\<lparr>u_lastLogin := now\<rparr>) s of
             Inl e \<Rightarrow> Inl (ErrorResponse ''Invalid credentials'' 401)
           | Inr (u', s') \<Rightarrow> Inr (sendTokenResponse cr u' 200, s')))"

section \<open>Outcomes\<close>

text \<open>
  An operation returns an error or a response; a failed request leaves the store as it
  was. \<open>succeeds\<close> tells whether a response came back, \<open>store_after\<close> gives the store after
  the request.
\<close>

definition succeeds :: "'e + 'a \<Rightarrow> bool" where
  "succeeds r \<longleftrightarrow> \<not> isl r"

definition store_after :: "'e + ('a \<times> store) \<Rightarrow> store \<Rightarrow> store" where
  "store_after r s = (case r of Inl e \<Rightarrow> s | Inr (x, s') \<Rightarrow> s')"

section \<open>A small store for examples\<close>

text \<open>
  Three accounts (\<open>alice\<close> and \<open>bob\<close> are members, \<open>root\<close> is an admin), three posts of
  \<open>alice\<close> (public, draft, and published but not public) and a comment of \<open>bob\<close> on the
  public post with a reply of \<open>alice\<close>. The comments are as \<open>createComment\<close> leaves them.
\<close>

definition ex_alice :: user where
  "ex_alice = \<lparr>u_id = 1, u_username = ''alice'', u_email = ''a@x.com'', u_password = Some ''#secret1'',
               u_firstName = ''Alice'', u_lastName = ''Adams'', u_bio = [],
               u_role = User, u_isActive = True, u_lastLogin = 10, u_updatedAt = 10\<rparr>"

definition ex_bob :: user where
  "ex_bob = \<lparr>u_id = 2, u_username = ''bob'', u_email = ''b@x.com'', u_password = Some ''#secret2'',
             u_firstName = ''Bob'', u_lastName = ''Brown'', u_bio = [],
             u_role = User, u_isActive = True, u_lastLogin = 11, u_updatedAt = 11\<rparr>"

definition ex_root :: user where
  "ex_root = \<lparr>u_id = 3, u_username = ''root'', u_email = ''r@x.com'', u_password = Some ''#secret3'',
              u_firstName = ''Rose'', u_lastName = ''Root'', u_bio = [],
              u_role = Admin, u_isActive = True, u_lastLogin = 12, u_updatedAt = 12\<rparr>"

text \<open>A post body of 60 characters, above the minimum of 50.\<close>

definition ex_text :: string where
  "ex_text = ''012345678901234567890123456789012345678901234567890123456789''"

definition ex_public_post :: blog where
  "ex_public_post = \<lparr>b_id = 10, b_title = ''Hello world'', b_content = ex_text,
                     b_summary = ''A greeting'', b_author = 1, b_category = ''technology'',
                     b_status = Published, b_isPublic = True, b_views = 4,
                     b_likes = [\<lparr>like_user = 2, likedAt = 50\<rparr>], b_publishedAt = Some 40,
                     b_createdAt = 40, b_updatedAt = 50\<rparr>"

definition ex_draft_post :: blog where
  "ex_draft_post = \<lparr>b_id = 11, b_title = ''Work in progress'', b_content = ex_text,
                    b_summary = ''Not ready'', b_author = 1, b_category = ''travel'',
                    b_status = Draft, b_isPublic = True, b_views = 0, b_likes = [],
                    b_publishedAt = None, b_createdAt = 41, b_updatedAt = 41\<rparr>"

definition ex_private_post :: blog where
  "ex_private_post = \<lparr>b_id = 12, b_title = ''Members only'', b_content = ex_text,
                      b_summary = ''For some'', b_author = 1, b_category = ''other'',
                      b_status = Published, b_isPublic = False, b_views = 0, b_likes = [],
                      b_publishedAt = Some 42, b_createdAt = 42, b_updatedAt = 42\<rparr>"

definition ex_comment :: comment where
  "ex_comment = \<lparr>c_id = 100, c_content = ''first'', c_author = 2, c_blog = 10,
                 c_parentComment = None, c_likes = [], c_isEdited = True, c_editedAt = Some 60,
                 c_isDeleted = False, c_deletedAt = None, c_createdAt = 60, c_updatedAt = 60\<rparr>"

definition ex_reply :: comment where
  "ex_reply = \<lparr>c_id = 101, c_content = ''thanks'', c_author = 1, c_blog = 10,
               c_parentComment = Some 100, c_likes = [], c_isEdited = True, c_editedAt = Some 70,
               c_isDeleted = False, c_deletedAt = None, c_createdAt = 70, c_updatedAt = 70\<rparr>"

definition ex_store :: store where
  "ex_store = \<lparr>users = [ex_alice, ex_bob, ex_root],
               blogs = [ex_public_post, ex_draft_post, ex_private_post],
               comments = [ex_comment, ex_reply]\<rparr>"

text \<open>A comment and a post as \<open>createComment\<close> and \<open>createBlog\<close> return them at time 80.\<close>

definition ex_new_comment :: comment where
  "ex_new_comment = \<lparr>c_id = 102, c_content = ''nice post'', c_author = 2, c_blog = 10,
                     c_parentComment = None, c_likes = [], c_isEdited = True, c_editedAt = Some 80,
                     c_isDeleted = False, c_deletedAt = None, c_createdAt = 80, c_updatedAt = 80\<rparr>"

definition ex_new_post :: blog where
  "ex_new_post = \<lparr>b_id = 13, b_title = ''Fresh post'', b_content = ex_text,
                  b_summary = ''Just written'', b_author = 1, b_category = ''food'',
                  b_status = Draft, b_isPublic = True, b_views = 0, b_likes = [],
                  b_publishedAt = None, b_createdAt = 80, b_updatedAt = 80\<rparr>"

text \<open>Request bodies: a new post with the status omitted, and \<^verbatim>\<open>{ "status": "published" }\<close>.\<close>

definition ex_body_new :: blog_body where
  "ex_body_new = \<lparr>bb_title = Some ''Fresh post'', bb_content = Some ex_text,
                  bb_summary = Some ''Just written'', bb_author = None, bb_category = Some ''food'',
                  bb_status = None, bb_isPublic = None, bb_views = None, bb_likes = None,
                  bb_publishedAt = None\<rparr>"

definition ex_body_publish :: blog_body where
  "ex_body_publish = \<lparr>bb_title = None, bb_content = None, bb_summary = None, bb_author = None,
                      bb_category = None, bb_status = Some Published, bb_isPublic = None,
                      bb_views = None, bb_likes = None, bb_publishedAt = None\<rparr>"

text \<open>The store after \<open>bob\<close> has deleted his comment at time 99.\<close>

definition ex_tombstoned :: comment where
  "ex_tombstoned = ex_comment\<lparr>c_content := ''[Comment deleted]'', c_isEdited := True,
                      c_editedAt := Some 99, c_isDeleted := True, c_deletedAt := Some 99,
                      c_updatedAt := 99\<rparr>"

definition ex_store_after_delete :: store where
  "ex_store_after_delete = ex_store\<lparr>comments := [ex_tombstoned, ex_reply]\<rparr>"

definition as_alice :: req_user where
  "as_alice = \<lparr>ru_id = 1, ru_role = User\<rparr>"

definition as_bob :: req_user where
  "as_bob = \<lparr>ru_id = 2, ru_role = User\<rparr>"

definition as_root :: req_user where
  "as_root = \<lparr>ru_id = 3, ru_role = Admin\<rparr>"

text \<open>Stand-ins for the credential and token primitives in the examples.\<close>

definition ex_crypto :: crypto where
  "ex_crypto = \<lparr>cr_hash = (\<lambda>p. ''#'' @ p), cr_compare = (\<lambda>p digest. digest = ''#'' @ p),
                cr_sign = (\<lambda>payload. ''jwt:'' @ jwt_username payload)\<rparr>"

section \<open>Properties of like arrays\<close>

lemma findIndex_None_iff: "findIndex P xs = None \<longleftrightarrow> (\<forall>x \<in> set xs. \<not> P x)"
  by (induction xs) auto

lemma findIndex_Some_D:
  "findIndex P xs = Some i \<Longrightarrow> i < length xs \<and> P (xs ! i) \<and> (\<forall>j < i. \<not> P (xs ! j))"
proof (induction xs arbitrary: i)
  case Nil
  then show ?case by simp
next
  case (Cons x xs)
  show ?case
  proof (cases "P x")
    case True
    with Cons.prems show ?thesis by simp
  next
    case False
    with Cons.prems obtain k where k: "findIndex P xs = Some k" "i = Suc k"
      by auto
    from Cons.IH [OF k(1)] False k(2) show ?thesis
      by (auto simp: nth_Cons split: nat.splits)
  qed
qed

lemma findIndex_append_new:
  "\<forall>x \<in> set xs. \<not> P x \<Longrightarrow> P y \<Longrightarrow> findIndex P (xs @ [y]) = Some (length xs)"
  by (induction xs) auto

lemma splice1_append_last: "splice1 (length xs) (xs @ [y]) = xs"
  by (simp add: splice1_def)

lemma length_splice1: "i < length xs \<Longrightarrow> length (splice1 i xs) = length xs - 1"
  by (simp add: splice1_def)

lemma splice1_decompose:
  "i < length xs \<Longrightarrow> xs = take i xs @ xs ! i # drop (Suc i) xs"
  by (simp add: id_take_nth_drop)

lemma likers_splice1:
  assumes "likes_unique ls" and "i < length ls"
  shows "like_user ` set (splice1 i ls) = like_user ` set ls - {like_user (ls ! i)}"
proof -
  let ?a = "take i ls" and ?b = "drop (Suc i) ls"
  have dec: "ls = ?a @ ls ! i # ?b"
    using assms(2) by (rule splice1_decompose)
  have "distinct (map like_user (?a @ ls ! i # ?b))"
    using assms(1) dec by (simp add: likes_unique_def)
  then have notin: "like_user (ls ! i) \<notin> like_user ` set ?a" "like_user (ls ! i) \<notin> like_user ` set ?b"
    by auto
  have "like_user ` set ls = like_user ` set ?a \<union> {like_user (ls ! i)} \<union> like_user ` set ?b"
    by (subst dec) auto
  moreover have "like_user ` set (splice1 i ls) = like_user ` set ?a \<union> like_user ` set ?b"
    by (simp add: splice1_def image_Un)
  ultimately show ?thesis
    using notin by auto
qed

lemma toggleLike_array_absent:
  assumes "\<forall>l \<in> set ls. like_user l \<noteq> u"
  shows "toggleLike_array u t ls = (True, ls @ [\<lparr>like_user = u, likedAt = t\<rparr>])"
proof -
  have "findIndex (\<lambda>l. like_user l = u) ls = None"
    using assms by (simp add: findIndex_None_iff)
  then show ?thesis by (simp add: toggleLike_array_def)
qed

lemma toggleLike_array_present:
  assumes "\<exists>l \<in> set ls. like_user l = u"
  shows "\<exists>i. findIndex (\<lambda>l. like_user l = u) ls = Some i \<and> i < length ls
           \<and> like_user (ls ! i) = u \<and> toggleLike_array u t ls = (False, splice1 i ls)"
proof -
  have "findIndex (\<lambda>l. like_user l = u) ls \<noteq> None"
    using assms by (simp add: findIndex_None_iff)
  then obtain i where i: "findIndex (\<lambda>l. like_user l = u) ls = Some i"
    by auto
  from findIndex_Some_D [OF i] i show ?thesis
    by (simp add: toggleLike_array_def)
qed

lemma toggleLike_array_undo_like:
  assumes "\<forall>l \<in> set ls. like_user l \<noteq> u"
  shows "toggleLike_array u t' (snd (toggleLike_array u t ls)) = (False, ls)"
proof -
  let ?ls' = "ls @ [\<lparr>like_user = u, likedAt = t\<rparr>]"
  have first: "snd (toggleLike_array u t ls) = ?ls'"
    using assms by (simp add: toggleLike_array_absent)
  have "findIndex (\<lambda>l. like_user l = u) ?ls' = Some (length ls)"
    using assms by (intro findIndex_append_new) auto
  then have "toggleLike_array u t' ?ls' = (False, ls)"
    by (simp add: toggleLike_array_def splice1_append_last)
  with first show ?thesis by simp
qed

lemma toggleLike_array_flag: "fst (toggleLike_array u t ls) \<longleftrightarrow> u \<notin> like_user ` set ls"
proof (cases "\<exists>l \<in> set ls. like_user l = u")
  case True
  from toggleLike_array_present [OF True, of t] True show ?thesis by force
next
  case False
  then have "\<forall>l \<in> set ls. like_user l \<noteq> u" by simp
  from toggleLike_array_absent [OF this, of t] False show ?thesis by force
qed

lemma toggleLike_array_likers:
  assumes "likes_unique ls"
  shows "like_user ` set (snd (toggleLike_array u t ls)) =
           (if u \<in> like_user ` set ls then like_user ` set ls - {u} else insert u (like_user ` set ls))"
proof (cases "\<exists>l \<in> set ls. like_user l = u")
  case True
  from toggleLike_array_present [OF True, of t] obtain i where
    i: "i < length ls" "like_user (ls ! i) = u" "toggleLike_array u t ls = (False, splice1 i ls)"
    by blast
  have "u \<in> like_user ` set ls" using True by force
  then show ?thesis
    using likers_splice1 [OF assms i(1)] i(2,3) by simp
next
  case False
  then have ab: "\<forall>l \<in> set ls. like_user l \<noteq> u" by simp
  have "u \<notin> like_user ` set ls" using False by force
  then show ?thesis
    using toggleLike_array_absent [OF ab, of t] by simp
qed

lemma toggleLike_array_length:
  "length (snd (toggleLike_array u t ls)) =
     (if u \<in> like_user ` set ls then length ls - 1 else length ls + 1)"
proof (cases "\<exists>l \<in> set ls. like_user l = u")
  case True
  from toggleLike_array_present [OF True, of t] obtain i where
    i: "i < length ls" "toggleLike_array u t ls = (False, splice1 i ls)"
    by blast
  have "u \<in> like_user ` set ls" using True by force
  then show ?thesis
    using i by (simp add: length_splice1)
next
  case False
  then have ab: "\<forall>l \<in> set ls. like_user l \<noteq> u" by simp
  have "u \<notin> like_user ` set ls" using False by force
  then show ?thesis
    using toggleLike_array_absent [OF ab, of t] by simp
qed

lemma toggleLike_array_unique:
  assumes "likes_unique ls"
  shows "likes_unique (snd (toggleLike_array u t ls))"
proof (cases "\<exists>l \<in> set ls. like_user l = u")
  case True
  from toggleLike_array_present [OF True, of t] obtain i where
    i: "i < length ls" "toggleLike_array u t ls = (False, splice1 i ls)"
    by blast
  have dec: "ls = take i ls @ ls ! i # drop (Suc i) ls"
    using i(1) by (rule splice1_decompose)
  have "distinct (map like_user (take i ls @ ls ! i # drop (Suc i) ls))"
    using assms dec by (simp add: likes_unique_def)
  then have "distinct (map like_user (splice1 i ls))"
    by (auto simp: splice1_def)
  then show ?thesis
    using i(2) by (simp add: likes_unique_def)
next
  case False
  then have ab: "\<forall>l \<in> set ls. like_user l \<noteq> u" by simp
  have "u \<notin> like_user ` set ls" using False by force
  then show ?thesis
    using toggleLike_array_absent [OF ab, of t] assms by (simp add: likes_unique_def)
qed

text \<open>Two calls in sequence by one account.\<close>

lemma toggleLike_array_twice:
  shows "fst (toggleLike_array u ta ls) \<longrightarrow>
           \<not> fst (toggleLike_array u tb (snd (toggleLike_array u ta ls)))
           \<and> snd (toggleLike_array u tb (snd (toggleLike_array u ta ls))) = ls"
    and "likes_unique ls \<longrightarrow>
           like_user ` set (snd (toggleLike_array u tb (snd (toggleLike_array u ta ls)))) = like_user ` set ls
           \<and> length (snd (toggleLike_array u tb (snd (toggleLike_array u ta ls)))) = length ls
           \<and> fst (toggleLike_array u tb (snd (toggleLike_array u ta ls))) = (\<not> fst (toggleLike_array u ta ls))"
proof -
  let ?r1 = "toggleLike_array u ta ls"
  let ?r2 = "toggleLike_array u tb (snd ?r1)"
  show "fst ?r1 \<longrightarrow> \<not> fst ?r2 \<and> snd ?r2 = ls"
  proof
    assume "fst ?r1"
    then have "\<forall>l \<in> set ls. like_user l \<noteq> u"
      unfolding toggleLike_array_flag by force
    from toggleLike_array_undo_like [OF this, of tb ta]
    show "\<not> fst ?r2 \<and> snd ?r2 = ls" by simp
  qed
  show "likes_unique ls \<longrightarrow>
           like_user ` set (snd ?r2) = like_user ` set ls \<and> length (snd ?r2) = length ls
           \<and> fst ?r2 = (\<not> fst ?r1)"
  proof
    assume uniq: "likes_unique ls"
    have uniq1: "likes_unique (snd ?r1)"
      using uniq by (rule toggleLike_array_unique)
    have seta: "like_user ` set (snd ?r1) =
        (if u \<in> like_user ` set ls then like_user ` set ls - {u} else insert u (like_user ` set ls))"
      using uniq by (rule toggleLike_array_likers)
    have setb: "like_user ` set (snd ?r2) =
        (if u \<in> like_user ` set (snd ?r1) then like_user ` set (snd ?r1) - {u}
         else insert u (like_user ` set (snd ?r1)))"
      using uniq1 by (rule toggleLike_array_likers)
    have likers: "like_user ` set (snd ?r2) = like_user ` set ls"
      unfolding setb seta by auto
    have len1: "length (snd ?r1) = (if u \<in> like_user ` set ls then length ls - 1 else length ls + 1)"
      by (rule toggleLike_array_length)
    have len2: "length (snd ?r2) =
        (if u \<in> like_user ` set (snd ?r1) then length (snd ?r1) - 1 else length (snd ?r1) + 1)"
      by (rule toggleLike_array_length)
    have pos: "u \<in> like_user ` set ls \<Longrightarrow> 0 < length ls"
      by auto
    have count: "length (snd ?r2) = length ls"
      unfolding len2 len1 seta using pos by auto
    have flag: "fst ?r2 = (\<not> fst ?r1)"
      unfolding toggleLike_array_flag seta by auto
    show "like_user ` set (snd ?r2) = like_user ` set ls \<and> length (snd ?r2) = length ls
           \<and> fst ?r2 = (\<not> fst ?r1)"
      using likers count flag by simp
  qed
qed

section \<open>Properties of collections\<close>

lemma find_Some_D: "find P xs = Some x \<Longrightarrow> x \<in> set xs \<and> P x"
  by (induction xs) (auto split: if_splits)

lemma find_None_D: "find P xs = None \<Longrightarrow> x \<in> set xs \<Longrightarrow> \<not> P x"
  by (induction xs) (auto split: if_splits)

lemma find_key_distinct:
  "distinct (map f xs) \<Longrightarrow> x \<in> set xs \<Longrightarrow>
     find (\<lambda>d. f d = f x \<and> Q d) xs = (if Q x then Some x else None)"
proof (induction xs)
  case Nil
  then show ?case by simp
next
  case (Cons y ys)
  show ?case
  proof (cases "y = x")
    case True
    have "\<forall>d \<in> set ys. f d \<noteq> f x"
      using Cons.prems(1) True by (auto simp: image_iff)
    then have "find (\<lambda>d. f d = f x \<and> Q d) ys = None"
      by (auto simp: find_None_iff)
    with True show ?thesis by simp
  next
    case False
    then have mem: "x \<in> set ys" using Cons.prems(2) by simp
    have "f y \<noteq> f x"
      using Cons.prems(1) mem by auto
    then show ?thesis
      using Cons.IH Cons.prems(1) mem by simp
  qed
qed

lemma find_key_distinct_plain:
  "distinct (map f xs) \<Longrightarrow> x \<in> set xs \<Longrightarrow> find (\<lambda>d. f d = f x) xs = Some x"
  using find_key_distinct [of f xs x "\<lambda>_. True"] by simp

lemma find_key_replace:
  "find (\<lambda>d. f d = k) xs = Some x \<Longrightarrow> f y = k \<Longrightarrow>
     find (\<lambda>d. f d = k) (map (\<lambda>d. if f d = f y then y else d) xs) = Some y"
  by (induction xs) (auto split: if_splits)

lemma find_key_replace_other:
  "f y \<noteq> k \<Longrightarrow>
     find (\<lambda>d. f d = k) (map (\<lambda>d. if f d = f y then y else d) xs) = find (\<lambda>d. f d = k) xs"
  by (induction xs) auto

lemma distinct_map_replace:
  "distinct (map f xs) \<Longrightarrow> distinct (map f (map (\<lambda>d. if f d = f y then y else d) xs))"
proof -
  have "map f (map (\<lambda>d. if f d = f y then y else d) xs) = map f xs"
    by (induction xs) auto
  then show "distinct (map f xs) \<Longrightarrow> ?thesis" by (simp only:)
qed

lemma fold_max_ge: "(x::nat) \<in> set xs \<Longrightarrow> x \<le> fold max xs a"
proof (induction xs arbitrary: a)
  case Nil
  then show ?case by simp
next
  case (Cons y ys)
  have mono: "\<And>b. b \<le> fold max ys b"
  proof -
    fix b show "b \<le> fold max ys b"
      by (induction ys arbitrary: b) (auto intro: order_trans [OF max.cobounded2])
  qed
  show ?case
  proof (cases "x = y")
    case True
    have "y \<le> max y a" by simp
    also have "\<dots> \<le> fold max ys (max y a)" by (rule mono)
    finally show ?thesis using True by simp
  next
    case False
    then have "x \<in> set ys" using Cons.prems by simp
    then show ?thesis using Cons.IH by simp
  qed
qed

lemma new_oid_fresh: "new_oid ids \<notin> set ids"
proof
  assume "new_oid ids \<in> set ids"
  then have "new_oid ids \<le> fold max ids 0" by (rule fold_max_ge)
  then show False by (simp add: new_oid_def)
qed

section \<open>Toggling a like twice\<close>



section \<open>Deleting a post\<close>

lemma deleteBlog_Inr_D:
  assumes "deleteBlog X u s = Inr s'"
  shows "\<exists>b. findById_blog s X = Some b \<and> (b_author b = ru_id u \<or> ru_role u = Admin)"
  using assms by (auto simp: deleteBlog_def split: option.splits if_splits)

text \<open>
  The handler behind the route deletes for the owner only; whenever it succeeds, it has
  removed the comments of the post and the post. It refuses every other caller, an admin
  included.
\<close>

lemma routed_deleteBlog_Inr_D:
  assumes "routed_deleteBlog X u s = Inr s'"
  shows "\<exists>b. findById_blog s X = Some b \<and> b_author b = ru_id u
           \<and> s' = deleteOne_blog b (deleteMany_comments_of_blog X s)
           \<and> filter (\<lambda>c. c_blog c = X) (comments s') = []"
  using assms
  by (auto simp: routed_deleteBlog_def deleteOne_blog_def deleteMany_comments_of_blog_def
      split: option.splits if_splits)

lemma routed_deleteBlog_not_owner:
  assumes "findById_blog s X = Some b" and "b_author b \<noteq> ru_id u"
  shows "routed_deleteBlog X u s = Inl (ErrorResponse ''Not authorized to delete this blog'' 401)"
  using assms by (simp add: routed_deleteBlog_def)

text \<open>
  Claim C7. When the post with id \<open>X\<close> exists and the caller is its owner or an admin,
  \<open>deleteBlog\<close> succeeds; it first removes every comment whose \<open>blog\<close> is \<open>X\<close> (the post is
  still stored at that point) and then the post, so that afterwards no comment with
  \<open>blog = X\<close> and no post with id \<open>X\<close> remains, and the other comments are untouched.
  The handler behind the route DELETE /api/blogs/:id does the same for the owner.
\<close>

theorem C7_deleteBlog_cascade:
  assumes "findById_blog s X = Some b" and "b_author b = ru_id u \<or> ru_role u = Admin"
  shows "\<exists>s'. deleteBlog X u s = Inr s'
           \<and> s' = deleteOne_blog b (deleteMany_comments_of_blog X s)
           \<and> filter (\<lambda>c. c_blog c = X) (comments (deleteMany_comments_of_blog X s)) = []
           \<and> findById_blog (deleteMany_comments_of_blog X s) X = Some b
           \<and> filter (\<lambda>c. c_blog c = X) (comments s') = []
           \<and> findById_blog s' X = None
           \<and> comments s' = filter (\<lambda>c. c_blog c \<noteq> X) (comments s)
           \<and> (b_author b = ru_id u \<longrightarrow> routed_deleteBlog X u s = Inr s')"
proof -
  have idb: "b_id b = X"
    using find_Some_D [of "\<lambda>b. b_id b = X" "blogs s" b] assms(1) by (simp add: findById_blog_def)
  have del: "deleteBlog X u s = Inr (deleteOne_blog b (deleteMany_comments_of_blog X s))"
    using assms by (auto simp: deleteBlog_def)
  have rdel: "b_author b = ru_id u \<longrightarrow>
                routed_deleteBlog X u s = Inr (deleteOne_blog b (deleteMany_comments_of_blog X s))"
    using assms(1) by (simp add: routed_deleteBlog_def)
  have gone: "findById_blog (deleteOne_blog b (deleteMany_comments_of_blog X s)) X = None"
    using idb by (simp add: findById_blog_def deleteOne_blog_def deleteMany_comments_of_blog_def find_None_iff)
  show ?thesis
    using del rdel gone assms(1)
    by (simp add: deleteOne_blog_def deleteMany_comments_of_blog_def findById_blog_def)
qed

theorem C7_deleteBlog_cascade_witness:
  "findById_blog ex_store 10 = Some ex_public_post
   \<and> (b_author ex_public_post = ru_id as_alice \<or> ru_role as_alice = Admin)
   \<and> filter (\<lambda>c. c_blog c = 10) (comments ex_store) = [ex_comment, ex_reply]
   \<and> deleteBlog 10 as_alice ex_store =
        Inr \<lparr>users = [ex_alice, ex_bob, ex_root], blogs = [ex_draft_post, ex_private_post], comments = []\<rparr>
   \<and> b_author ex_public_post = ru_id as_alice
   \<and> routed_deleteBlog 10 as_alice ex_store =
        Inr \<lparr>users = [ex_alice, ex_bob, ex_root], blogs = [ex_draft_post, ex_private_post], comments = []\<rparr>"
proof -
  have h1: "findById_blog ex_store 10 = Some ex_public_post"
    by (simp add: findById_blog_def ex_store_def ex_public_post_def)
  have own: "b_author ex_public_post = ru_id as_alice"
    by (simp add: ex_public_post_def as_alice_def)
  then have h2: "b_author ex_public_post = ru_id as_alice \<or> ru_role as_alice = Admin"
    by (rule disjI1)
  have cs: "filter (\<lambda>c. c_blog c = 10) (comments ex_store) = [ex_comment, ex_reply]"
    by (simp add: ex_store_def ex_comment_def ex_reply_def)
  from C7_deleteBlog_cascade [OF h1 h2] obtain s' where
    d: "deleteBlog 10 as_alice ex_store = Inr s'" and
    eq: "s' = deleteOne_blog ex_public_post (deleteMany_comments_of_blog 10 ex_store)" and
    r: "b_author ex_public_post = ru_id as_alice \<longrightarrow> routed_deleteBlog 10 as_alice ex_store = Inr s'"
    by blast
  have v: "deleteOne_blog ex_public_post (deleteMany_comments_of_blog 10 ex_store)
             = \<lparr>users = [ex_alice, ex_bob, ex_root], blogs = [ex_draft_post, ex_private_post],
                comments = []\<rparr>"
    by (simp add: deleteOne_blog_def deleteMany_comments_of_blog_def ex_store_def
        ex_public_post_def ex_draft_post_def ex_private_post_def ex_comment_def ex_reply_def)
  have d': "deleteBlog 10 as_alice ex_store =
        Inr \<lparr>users = [ex_alice, ex_bob, ex_root], blogs = [ex_draft_post, ex_private_post], comments = []\<rparr>"
    using d eq v by simp
  have r': "routed_deleteBlog 10 as_alice ex_store =
        Inr \<lparr>users = [ex_alice, ex_bob, ex_root], blogs = [ex_draft_post, ex_private_post], comments = []\<rparr>"
    using r own eq v by simp
  show ?thesis
    by (intro conjI h1 h2 cs d' own r')
qed

section \<open>Creating and updating comments\<close>

lemma find_append_new:
  "\<forall>x \<in> set xs. \<not> P x \<Longrightarrow> P y \<Longrightarrow> find P (xs @ [y]) = Some y"
  by (induction xs) auto

lemma Comment_create_Inr_D:
  assumes "Comment_create content author blogId parent now s = Inr (c, s')"
  shows "c_isEdited c \<and> c_editedAt c = Some now \<and> c_createdAt c = now
         \<and> c_id c = new_oid (map c_id (comments s)) \<and> comments s' = comments s @ [c]"
  using assms
  by (auto simp: Comment_create_def comment_pre_save_def Let_def split: if_splits)

text \<open>
  Claim C10. Every comment that \<open>createComment\<close> creates is marked as edited from the start:
  its \<open>isEdited\<close> flag is true and its \<open>editedAt\<close> is the creation time, although no
  update has happened. The comment is the one stored under its new id.
\<close>

theorem C10_new_comment_marked_edited:
  assumes "createComment blogId u content parent now s = Inr (c, s')"
  shows "c_isEdited c \<and> c_editedAt c = Some now \<and> c_createdAt c = now
         \<and> findById_comment s (c_id c) = None \<and> findById_comment s' (c_id c) = Some c"
proof -
  have cr: "Comment_create content (ru_id u) blogId parent now s = Inr (c, s')"
    using assms by (auto simp: createComment_def split: option.splits if_splits)
  note d = Comment_create_Inr_D [OF cr]
  have fresh: "c_id c \<notin> set (map c_id (comments s))"
    using d new_oid_fresh [of "map c_id (comments s)"] by simp
  have none: "\<forall>x \<in> set (comments s). \<not> (c_id x = c_id c)"
  proof
    fix x assume "x \<in> set (comments s)"
    then have "c_id x \<in> set (map c_id (comments s))" by simp
    with fresh show "\<not> (c_id x = c_id c)" by metis
  qed
  have a: "findById_comment s (c_id c) = None"
    using none by (simp add: findById_comment_def find_None_iff)
  have b: "findById_comment s' (c_id c) = Some c"
    using d find_append_new [OF none, of c] by (simp add: findById_comment_def)
  show ?thesis using d a b by simp
qed

theorem C10_new_comment_marked_edited_witness:
  "createComment 10 as_bob ''  nice post '' None 80 ex_store
     = Inr (ex_new_comment, ex_store\<lparr>comments := [ex_comment, ex_reply, ex_new_comment]\<rparr>)
   \<and> c_isEdited ex_new_comment \<and> c_editedAt ex_new_comment = Some 80
   \<and> c_createdAt ex_new_comment = 80"
proof -
  have h: "createComment 10 as_bob ''  nice post '' None 80 ex_store
     = Inr (ex_new_comment, ex_store\<lparr>comments := [ex_comment, ex_reply, ex_new_comment]\<rparr>)"
    by (simp add: createComment_def Comment_create_def comment_pre_save_def findById_blog_def
        ex_store_def ex_public_post_def ex_comment_def ex_reply_def ex_new_comment_def as_bob_def
        new_oid_def js_trim_def is_space_def content_valid_def Let_def)
  from C10_new_comment_marked_edited [OF h] h show ?thesis
    by simp
qed

lemma findByIdAndUpdate_comment_marks:
  assumes "findByIdAndUpdate_comment i content now s = Inr (Some c', s')"
  shows "\<exists>c. findById_comment s i = Some c \<and> c' = c\<lparr>c_content := js_trim content, c_updatedAt := now\<rparr>
           \<and> c_isEdited c' = c_isEdited c \<and> c_editedAt c' = c_editedAt c"
  using assms
  by (auto simp: findByIdAndUpdate_comment_def Let_def split: if_splits option.splits)

lemma updateComment_marks:
  assumes "updateComment i u content now s = Inr (Some c', s')"
  shows "\<exists>c. findById_comment s i = Some c \<and> c_content c' = js_trim content
           \<and> c_isEdited c' = c_isEdited c \<and> c_editedAt c' = c_editedAt c"
proof -
  have "findByIdAndUpdate_comment i content now s = Inr (Some c', s')"
    using assms by (auto simp: updateComment_def split: option.splits if_splits)
  from findByIdAndUpdate_comment_marks [OF this] show ?thesis by auto
qed

text \<open>
  Claim C5 fails on the code. \<open>updateComment\<close> writes the new body with
  \<open>findByIdAndUpdate\<close>, which runs no save hook, so the edited flag and the edited timestamp
  keep the values they had (lemma \<open>updateComment_marks\<close>). Here \<open>bob\<close> updates, at time 95,
  the comment he created at time 80: the body is replaced and \<open>editedAt\<close> is still 80.
\<close>

theorem C5_updateComment_keeps_editedAt:
  "updateComment 102 as_bob ''nicer post'' 95 (ex_store\<lparr>comments := [ex_comment, ex_reply, ex_new_comment]\<rparr>)
     = Inr (Some (ex_new_comment\<lparr>c_content := ''nicer post'', c_updatedAt := 95\<rparr>),
            ex_store\<lparr>comments := [ex_comment, ex_reply,
                                   ex_new_comment\<lparr>c_content := ''nicer post'', c_updatedAt := 95\<rparr>]\<rparr>)
   \<and> c_editedAt (ex_new_comment\<lparr>c_content := ''nicer post'', c_updatedAt := 95\<rparr>) = Some 80"
  by (simp add: updateComment_def findOne_live_comment_def findByIdAndUpdate_comment_def
      findById_comment_def replace_comment_def ex_store_def ex_comment_def ex_reply_def
      ex_new_comment_def as_bob_def js_trim_def is_space_def content_valid_def Let_def)


section \<open>Authentication\<close>

lemma replace_mem:
  "x \<in> set xs \<Longrightarrow> f y = f x \<Longrightarrow> y \<in> set (map (\<lambda>d. if f d = f y then y else d) xs)"
  by (induction xs) auto

lemma login_no_account:
  assumes "findOne_active_user s email = None"
  shows "login cr email password now s = Inl (ErrorResponse ''Invalid credentials'' 401)"
  using assms by (simp add: login_def findByCredentials_def)

lemma login_bad_secret:
  assumes "findOne_active_user s email = Some a" and "\<not> comparePassword cr a password"
  shows "login cr email password now s = Inl (ErrorResponse ''Invalid credentials'' 401)"
  using assms by (simp add: login_def findByCredentials_def)

lemma login_invalid_document:
  assumes "findOne_active_user s email = Some a" and "comparePassword cr a password"
    and "\<not> user_valid (a\<lparr>u_lastLogin := now\<rparr>)"
  shows "login cr email password now s = Inl (ErrorResponse ''Invalid credentials'' 401)"
  using assms by (simp add: login_def findByCredentials_def user_save_def)

lemma login_good_secret:
  assumes "findOne_active_user s email = Some a" and "comparePassword cr a password"
    and "user_valid (a\<lparr>u_lastLogin := now\<rparr>)"
  shows "login cr email password now s =
           Inr (\<lparr>ar_statusCode = 200,
                 ar_token = cr_sign cr \<lparr>jwt_id = u_id a, jwt_username = u_username a, jwt_role = u_role a\<rparr>,
                 ar_data = a\<lparr>u_password := None, u_lastLogin := now, u_updatedAt := now\<rparr>\<rparr>,
                s\<lparr>users := replace_user (a\<lparr>u_lastLogin := now, u_updatedAt := now\<rparr>) (users s)\<rparr>)"
  using assms
  by (simp add: login_def findByCredentials_def user_save_def user_pre_save_def
      sendTokenResponse_def generateToken_def Let_def)

lemma login_Inl_D:
  assumes "login cr email password now s = Inl e"
  shows "e = ErrorResponse ''Invalid credentials'' 401"
proof (cases "findByCredentials cr email password s")
  case (Inl x)
  then show ?thesis using assms by (simp add: login_def)
next
  case (Inr u)
  show ?thesis
  proof (cases "user_save cr False now (u\<lparr>u_lastLogin := now\<rparr>) s")
    case (Inl x)
    then show ?thesis using assms Inr by (simp add: login_def)
  next
    case (Inr p)
    then have "\<exists>r s'. login cr email password now s = Inr (r, s')"
      using \<open>findByCredentials cr email password s = Inr u\<close>
      by (cases p) (simp add: login_def)
    with assms show ?thesis by simp
  qed
qed

text \<open>
  Claim C8. \<open>login\<close> answers with one and the same error, \<open>ErrorResponse "Invalid credentials" 401\<close>,
  when no active account has the e-mail (trimmed and in small letters, as the query looks
  for it) and when the secret does not verify against the stored digest; it has no other
  error, and gives this one also when the secret verifies but the account's document does
  not pass the validators on saving. When the secret verifies and the document can be
  saved, it stores the account with \<open>lastLogin\<close> set to the current time and returns a token
  signed over the account's id, username and role.
\<close>

theorem C8_login:
  "(findOne_active_user s email = None \<longrightarrow>
      login cr email password now s = Inl (ErrorResponse ''Invalid credentials'' 401))
   \<and> (\<forall>a. findOne_active_user s email = Some a \<and> \<not> comparePassword cr a password \<longrightarrow>
      login cr email password now s = Inl (ErrorResponse ''Invalid credentials'' 401))
   \<and> (\<forall>e. login cr email password now s = Inl e \<longrightarrow> e = ErrorResponse ''Invalid credentials'' 401)
   \<and> (\<forall>a. findOne_active_user s email = Some a \<and> comparePassword cr a password
          \<and> \<not> user_valid (a\<lparr>u_lastLogin := now\<rparr>) \<longrightarrow>
      login cr email password now s = Inl (ErrorResponse ''Invalid credentials'' 401))
   \<and> (\<forall>a. findOne_active_user s email = Some a \<and> comparePassword cr a password
          \<and> user_valid (a\<lparr>u_lastLogin := now\<rparr>) \<longrightarrow>
        (\<exists>r s'. login cr email password now s = Inr (r, s')
           \<and> ar_token r = cr_sign cr \<lparr>jwt_id = u_id a, jwt_username = u_username a, jwt_role = u_role a\<rparr>
           \<and> ar_data r = a\<lparr>u_password := None, u_lastLogin := now, u_updatedAt := now\<rparr>
           \<and> a\<lparr>u_lastLogin := now, u_updatedAt := now\<rparr> \<in> set (users s')
           \<and> users s' = replace_user (a\<lparr>u_lastLogin := now, u_updatedAt := now\<rparr>) (users s)
           \<and> blogs s' = blogs s \<and> comments s' = comments s))"
proof (intro conjI allI impI)
  assume "findOne_active_user s email = None"
  then show "login cr email password now s = Inl (ErrorResponse ''Invalid credentials'' 401)"
    by (rule login_no_account)
next
  fix a assume "findOne_active_user s email = Some a \<and> \<not> comparePassword cr a password"
  then show "login cr email password now s = Inl (ErrorResponse ''Invalid credentials'' 401)"
    by (simp add: login_bad_secret)
next
  fix e assume "login cr email password now s = Inl e"
  then show "e = ErrorResponse ''Invalid credentials'' 401"
    by (rule login_Inl_D)
next
  fix a assume "findOne_active_user s email = Some a \<and> comparePassword cr a password
          \<and> \<not> user_valid (a\<lparr>u_lastLogin := now\<rparr>)"
  then show "login cr email password now s = Inl (ErrorResponse ''Invalid credentials'' 401)"
    by (simp add: login_invalid_document)
next
  fix a assume h: "findOne_active_user s email = Some a \<and> comparePassword cr a password
          \<and> user_valid (a\<lparr>u_lastLogin := now\<rparr>)"
  let ?a' = "a\<lparr>u_lastLogin := now, u_updatedAt := now\<rparr>"
  let ?r = "\<lparr>ar_statusCode = 200,
             ar_token = cr_sign cr \<lparr>jwt_id = u_id a, jwt_username = u_username a, jwt_role = u_role a\<rparr>,
             ar_data = a\<lparr>u_password := None, u_lastLogin := now, u_updatedAt := now\<rparr>\<rparr>"
  let ?s' = "s\<lparr>users := replace_user ?a' (users s)\<rparr>"
  have "find (\<lambda>u. u_email u = js_toLowerCase (js_trim email) \<and> u_isActive u) (users s) = Some a"
    using h by (simp add: findOne_active_user_def)
  then have "a \<in> set (users s)"
    by (rule find_Some_D [THEN conjunct1])
  then have mem: "?a' \<in> set (replace_user ?a' (users s))"
    unfolding replace_user_def by (rule replace_mem) simp
  have lg: "login cr email password now s = Inr (?r, ?s')"
    using h by (intro login_good_secret) simp_all
  show "\<exists>r s'. login cr email password now s = Inr (r, s')
           \<and> ar_token r = cr_sign cr \<lparr>jwt_id = u_id a, jwt_username = u_username a, jwt_role = u_role a\<rparr>
           \<and> ar_data r = a\<lparr>u_password := None, u_lastLogin := now, u_updatedAt := now\<rparr>
           \<and> ?a' \<in> set (users s')
           \<and> users s' = replace_user ?a' (users s)
           \<and> blogs s' = blogs s \<and> comments s' = comments s"
  proof (intro exI conjI)
    show "login cr email password now s = Inr (?r, ?s')" by (rule lg)
    show "?a' \<in> set (users ?s')" using mem by simp
  qed simp_all
qed

lemma ex_email_accepted: "matches email_pattern ''a@x.com''"
  by code_simp

lemma ex_alice_valid: "user_valid (ex_alice\<lparr>u_lastLogin := 90\<rparr>)"
  using ex_email_accepted by (simp add: user_valid_def ex_alice_def)

theorem C8_login_witness:
  "findOne_active_user ex_store ''nobody@x.com'' = None
   \<and> login ex_crypto ''nobody@x.com'' ''secret1'' 90 ex_store = Inl (ErrorResponse ''Invalid credentials'' 401)
   \<and> findOne_active_user ex_store '' A@X.com'' = Some ex_alice
   \<and> \<not> comparePassword ex_crypto ex_alice ''guess''
   \<and> login ex_crypto '' A@X.com'' ''guess'' 90 ex_store = Inl (ErrorResponse ''Invalid credentials'' 401)
   \<and> findOne_active_user (ex_store\<lparr>users := [ex_alice\<lparr>u_firstName := []\<rparr>]\<rparr>) ''a@x.com''
         = Some (ex_alice\<lparr>u_firstName := []\<rparr>)
   \<and> comparePassword ex_crypto (ex_alice\<lparr>u_firstName := []\<rparr>) ''secret1''
   \<and> \<not> user_valid (ex_alice\<lparr>u_firstName := [], u_lastLogin := 90\<rparr>)
   \<and> login ex_crypto ''a@x.com'' ''secret1'' 90 (ex_store\<lparr>users := [ex_alice\<lparr>u_firstName := []\<rparr>]\<rparr>)
         = Inl (ErrorResponse ''Invalid credentials'' 401)
   \<and> comparePassword ex_crypto ex_alice ''secret1''
   \<and> user_valid (ex_alice\<lparr>u_lastLogin := 90\<rparr>)
   \<and> login ex_crypto '' A@X.com'' ''secret1'' 90 ex_store =
        Inr (\<lparr>ar_statusCode = 200, ar_token = ''jwt:alice'',
              ar_data = ex_alice\<lparr>u_password := None, u_lastLogin := 90, u_updatedAt := 90\<rparr>\<rparr>,
             ex_store\<lparr>users := [ex_alice\<lparr>u_lastLogin := 90, u_updatedAt := 90\<rparr>, ex_bob, ex_root]\<rparr>)"
proof -
  have n: "findOne_active_user ex_store ''nobody@x.com'' = None"
    by (simp add: findOne_active_user_def js_toLowerCase_def toLowerCase_char_def js_trim_def
        is_space_def ex_store_def ex_alice_def ex_bob_def ex_root_def)
  have f: "findOne_active_user ex_store '' A@X.com'' = Some ex_alice"
    by (simp add: findOne_active_user_def js_toLowerCase_def toLowerCase_char_def js_trim_def
        is_space_def ex_store_def ex_alice_def)
  have bad: "\<not> comparePassword ex_crypto ex_alice ''guess''"
    by (simp add: comparePassword_def ex_crypto_def ex_alice_def)
  have good: "comparePassword ex_crypto ex_alice ''secret1''"
    by (simp add: comparePassword_def ex_crypto_def ex_alice_def)
  note v = ex_alice_valid
  have t1: "login ex_crypto ''nobody@x.com'' ''secret1'' 90 ex_store
              = Inl (ErrorResponse ''Invalid credentials'' 401)"
    by (rule C8_login [THEN conjunct1, rule_format, OF n])
  have t2: "login ex_crypto '' A@X.com'' ''guess'' 90 ex_store
              = Inl (ErrorResponse ''Invalid credentials'' 401)"
    by (rule C8_login [THEN conjunct2, THEN conjunct1, rule_format, OF conjI [OF f bad]])
  have f3: "findOne_active_user (ex_store\<lparr>users := [ex_alice\<lparr>u_firstName := []\<rparr>]\<rparr>) ''a@x.com''
         = Some (ex_alice\<lparr>u_firstName := []\<rparr>)"
    by (simp add: findOne_active_user_def js_toLowerCase_def toLowerCase_char_def js_trim_def
        is_space_def ex_alice_def)
  have good3: "comparePassword ex_crypto (ex_alice\<lparr>u_firstName := []\<rparr>) ''secret1''"
    by (simp add: comparePassword_def ex_crypto_def ex_alice_def)
  have nv: "\<not> user_valid (ex_alice\<lparr>u_firstName := [], u_lastLogin := 90\<rparr>)"
    by (simp add: user_valid_def)
  have t3: "login ex_crypto ''a@x.com'' ''secret1'' 90 (ex_store\<lparr>users := [ex_alice\<lparr>u_firstName := []\<rparr>]\<rparr>)
         = Inl (ErrorResponse ''Invalid credentials'' 401)"
    by (rule C8_login [THEN conjunct2, THEN conjunct2, THEN conjunct2, THEN conjunct1, rule_format,
          OF conjI [OF f3 conjI [OF good3 nv]]])
  from C8_login [THEN conjunct2, THEN conjunct2, THEN conjunct2, THEN conjunct2, rule_format,
      OF conjI [OF f conjI [OF good v]]]
  obtain r s' where run: "login ex_crypto '' A@X.com'' ''secret1'' 90 ex_store = Inr (r, s')"
    and tok: "ar_token r = cr_sign ex_crypto \<lparr>jwt_id = u_id ex_alice, jwt_username = u_username ex_alice,
                                            jwt_role = u_role ex_alice\<rparr>"
    and dat: "ar_data r = ex_alice\<lparr>u_password := None, u_lastLogin := 90, u_updatedAt := 90\<rparr>"
    and us: "users s' = replace_user (ex_alice\<lparr>u_lastLogin := 90, u_updatedAt := 90\<rparr>) (users ex_store)"
    by blast
  have ok: "login ex_crypto '' A@X.com'' ''secret1'' 90 ex_store =
        Inr (\<lparr>ar_statusCode = 200, ar_token = ''jwt:alice'',
              ar_data = ex_alice\<lparr>u_password := None, u_lastLogin := 90, u_updatedAt := 90\<rparr>\<rparr>,
             ex_store\<lparr>users := [ex_alice\<lparr>u_lastLogin := 90, u_updatedAt := 90\<rparr>, ex_bob, ex_root]\<rparr>)"
    using login_good_secret [OF f good v]
    by (simp add: replace_user_def ex_store_def ex_alice_def ex_bob_def ex_root_def ex_crypto_def)
  show ?thesis
    by (intro conjI n t1 f bad t2 f3 good3 nv t3 good v ok)
qed


section \<open>Liking a post\<close>

lemma findById_blog_D: "findById_blog s i = Some b \<Longrightarrow> b \<in> set (blogs s) \<and> b_id b = i"
  unfolding findById_blog_def by (rule find_Some_D)

lemma findById_blog_replace:
  assumes "findById_blog s i = Some b" and "b_id b' = i"
  shows "findById_blog (s\<lparr>blogs := replace_blog b' (blogs s)\<rparr>) i = Some b'"
  using assms find_key_replace [of b_id i "blogs s" b b']
  by (simp add: findById_blog_def replace_blog_def)

text \<open>
  The handler behind PUT /api/blogs/:id/like on an existing post whose document passes the
  validators: it answers with success whatever the state and the public flag of the post
  are, and stores the post with the like array that \<^verbatim>\<open>pull\<close> or \<^verbatim>\<open>push\<close> has left.
\<close>

lemma routed_toggleLikeBlog_found:
  assumes "findById_blog s i = Some b" and "blog_valid b"
  shows "routed_toggleLikeBlog ops i u now s =
           (let ls = (if bi_includes ops (b_likes b) (ru_id u) then bi_pull ops (b_likes b) (ru_id u)
                      else bi_push ops (b_likes b) (ru_id u) now)
            in Inr (\<lparr>rl_liked = (\<not> bi_includes ops (b_likes b) (ru_id u)), rl_likes = length ls\<rparr>,
                    s\<lparr>blogs := replace_blog (b\<lparr>b_likes := ls, b_updatedAt := now\<rparr>) (blogs s)\<rparr>))"
  using assms
  by (simp add: routed_toggleLikeBlog_def blog_save_def blog_pre_save_def blog_valid_def Let_def)

text \<open>
  When \<^verbatim>\<open>includes\<close> finds no subdocument equal to the bare id, the handler pushes and reports
  a like, on every call.
\<close>

lemma routed_toggleLikeBlog_pushes:
  assumes "findById_blog s i = Some b" and "blog_valid b"
    and "\<not> bi_includes ops (b_likes b) (ru_id u)"
  shows "routed_toggleLikeBlog ops i u now s =
           Inr (\<lparr>rl_liked = True, rl_likes = length (bi_push ops (b_likes b) (ru_id u) now)\<rparr>,
                s\<lparr>blogs := replace_blog (b\<lparr>b_likes := bi_push ops (b_likes b) (ru_id u) now,
                                            b_updatedAt := now\<rparr>) (blogs s)\<rparr>)"
  using routed_toggleLikeBlog_found [OF assms(1,2), of ops u now] assms(3) by (simp add: Let_def)

text \<open>
  The handler of \<^verbatim>\<open>middlewares/blogController.js\<close>, which no route imports, has the test:
  it refuses a post that is not publicly visible, and toggles the like of any caller, the
  owner included, on one that is.
\<close>

lemma toggleLikeBlog_not_visible:
  assumes "findById_blog s i = Some b" and "\<not> publicly_visible b"
  shows "toggleLikeBlog i u now s = Inl (ErrorResponse ''Cannot like this blog'' 400)"
  using assms by (auto simp: toggleLikeBlog_def publicly_visible_def)

lemma toggleLikeBlog_visible:
  assumes "findById_blog s i = Some b" and "publicly_visible b" and "blog_valid b"
  shows "toggleLikeBlog i u now s =
           (let r = toggleLike_array (ru_id u) now (b_likes b);
                b' = b\<lparr>b_likes := snd r, b_updatedAt := now\<rparr>
            in Inr (\<lparr>lr_message = (if fst r then ''Blog liked'' else ''Blog unliked''),
                     lr_likeCount = length (snd r), lr_isLiked = fst r\<rparr>,
                    s\<lparr>blogs := replace_blog b' (blogs s)\<rparr>))"
  using assms
  by (simp add: toggleLikeBlog_def publicly_visible_def blog_toggleLike_def blog_save_def
      blog_pre_save_def blog_valid_def Let_def)

text \<open>
  Toggling twice through that handler: two calls of \<open>toggleLikeBlog\<close> by one caller on a publicly
  visible post with a well-formed like array both succeed, and the second leaves the post
  stored with the likers and the like count it had before the first.
\<close>

lemma toggleLikeBlog_twice:
  assumes "findById_blog s i = Some b" and "publicly_visible b" and "likes_unique (b_likes b)"
    and "blog_valid b"
  shows "\<exists>r1 s1 r2 s2 b2.
           toggleLikeBlog i u t1 s = Inr (r1, s1) \<and> toggleLikeBlog i u t2 s1 = Inr (r2, s2)
           \<and> findById_blog s2 i = Some b2
           \<and> blog_likers b2 = blog_likers b \<and> blog_likeCount b2 = blog_likeCount b
           \<and> lr_likeCount r2 = blog_likeCount b \<and> lr_isLiked r2 = (\<not> lr_isLiked r1)"
proof -
  let ?t1 = "toggleLike_array (ru_id u) t1 (b_likes b)"
  let ?b1 = "b\<lparr>b_likes := snd ?t1, b_updatedAt := t1\<rparr>"
  let ?s1 = "s\<lparr>blogs := replace_blog ?b1 (blogs s)\<rparr>"
  let ?r1 = "\<lparr>lr_message = (if fst ?t1 then ''Blog liked'' else ''Blog unliked''),
              lr_likeCount = length (snd ?t1), lr_isLiked = fst ?t1\<rparr>"
  let ?t2 = "toggleLike_array (ru_id u) t2 (snd ?t1)"
  let ?b2 = "?b1\<lparr>b_likes := snd ?t2, b_updatedAt := t2\<rparr>"
  let ?s2 = "?s1\<lparr>blogs := replace_blog ?b2 (blogs ?s1)\<rparr>"
  let ?r2 = "\<lparr>lr_message = (if fst ?t2 then ''Blog liked'' else ''Blog unliked''),
              lr_likeCount = length (snd ?t2), lr_isLiked = fst ?t2\<rparr>"
  have idb: "b_id b = i"
    using findById_blog_D [OF assms(1)] by simp
  have run1: "toggleLikeBlog i u t1 s = Inr (?r1, ?s1)"
    using toggleLikeBlog_visible [OF assms(1,2,4), of u t1] by (simp add: Let_def)
  have f1: "findById_blog ?s1 i = Some ?b1"
    using assms(1) by (rule findById_blog_replace) (simp add: idb)
  have vis1: "publicly_visible ?b1"
    using assms(2) by (simp add: publicly_visible_def)
  have val1: "blog_valid ?b1"
    using assms(4) by (simp add: blog_valid_def)
  have run2: "toggleLikeBlog i u t2 ?s1 = Inr (?r2, ?s2)"
    using toggleLikeBlog_visible [OF f1 vis1 val1, of u t2] by (simp add: Let_def)
  have f2: "findById_blog ?s2 i = Some ?b2"
    using f1 by (rule findById_blog_replace) (simp add: idb)
  note tw = toggleLike_array_twice(2) [where u = "ru_id u" and ta = t1 and tb = t2 and ls = "b_likes b",
      rule_format, OF assms(3)]
  show ?thesis
  proof (intro exI conjI)
    show "toggleLikeBlog i u t1 s = Inr (?r1, ?s1)" by (rule run1)
    show "toggleLikeBlog i u t2 ?s1 = Inr (?r2, ?s2)" by (rule run2)
    show "findById_blog ?s2 i = Some ?b2" by (rule f2)
    show "blog_likers ?b2 = blog_likers b" using tw by (simp add: blog_likers_def)
    show "blog_likeCount ?b2 = blog_likeCount b" using tw by (simp add: blog_likeCount_def)
    show "lr_likeCount ?r2 = blog_likeCount b" using tw by (simp add: blog_likeCount_def)
    show "lr_isLiked ?r2 = (\<not> lr_isLiked ?r1)" using tw by simp
  qed
qed

lemma ex_posts_valid:
  "blog_valid ex_public_post" "blog_valid ex_draft_post" "blog_valid ex_private_post"
  by (simp_all add: blog_valid_def categories_def ex_public_post_def ex_draft_post_def
      ex_private_post_def ex_text_def)

lemma ex_store_posts:
  "findById_blog ex_store 10 = Some ex_public_post" "findById_blog ex_store 11 = Some ex_draft_post"
  "findById_blog ex_store 12 = Some ex_private_post"
  by (simp_all add: findById_blog_def ex_store_def ex_public_post_def ex_draft_post_def
      ex_private_post_def)

lemma ex_toggleLikeBlog_refuses:
  "toggleLikeBlog 12 as_bob 90 ex_store = Inl (ErrorResponse ''Cannot like this blog'' 400)"
  "toggleLikeBlog 11 as_bob 90 ex_store = Inl (ErrorResponse ''Cannot like this blog'' 400)"
  by (simp_all add: toggleLikeBlog_not_visible [OF ex_store_posts(3)]
      toggleLikeBlog_not_visible [OF ex_store_posts(2)] publicly_visible_def
      ex_private_post_def ex_draft_post_def)

text \<open>
  Claim C4 fails on the handler that the route PUT /api/blogs/:id/like runs: it has no
  visibility test. The post 12 is published but not public and the post 11 is a draft, so
  neither is publicly visible; \<open>bob\<close>, who is neither their owner nor an admin, likes each
  of them and gets a success response instead of a bad request, and the like is stored.
  This holds for every behaviour \<open>ops\<close> of the array methods on a bare id.
\<close>

theorem C4_routed_toggleLikeBlog_ignores_visibility:
  "findById_blog ex_store 12 = Some ex_private_post \<and> \<not> publicly_visible ex_private_post
   \<and> findById_blog ex_store 11 = Some ex_draft_post \<and> \<not> publicly_visible ex_draft_post
   \<and> ru_id as_bob \<noteq> b_author ex_private_post \<and> ru_id as_bob \<noteq> b_author ex_draft_post
   \<and> routed_toggleLikeBlog ops 12 as_bob 90 ex_store =
       Inr (\<lparr>rl_liked = (\<not> bi_includes ops [] 2),
             rl_likes = length (if bi_includes ops [] 2 then bi_pull ops [] 2 else bi_push ops [] 2 90)\<rparr>,
            ex_store\<lparr>blogs := [ex_public_post, ex_draft_post,
               ex_private_post\<lparr>b_likes := (if bi_includes ops [] 2 then bi_pull ops [] 2
                                            else bi_push ops [] 2 90),
                               b_updatedAt := 90\<rparr>]\<rparr>)
   \<and> routed_toggleLikeBlog ops 11 as_bob 90 ex_store =
       Inr (\<lparr>rl_liked = (\<not> bi_includes ops [] 2),
             rl_likes = length (if bi_includes ops [] 2 then bi_pull ops [] 2 else bi_push ops [] 2 90)\<rparr>,
            ex_store\<lparr>blogs := [ex_public_post,
               ex_draft_post\<lparr>b_likes := (if bi_includes ops [] 2 then bi_pull ops [] 2
                                          else bi_push ops [] 2 90),
                             b_updatedAt := 90\<rparr>,
               ex_private_post]\<rparr>)"
proof -
  have nv: "\<not> publicly_visible ex_private_post" "\<not> publicly_visible ex_draft_post"
    by (simp_all add: publicly_visible_def ex_private_post_def ex_draft_post_def)
  have own: "ru_id as_bob \<noteq> b_author ex_private_post" "ru_id as_bob \<noteq> b_author ex_draft_post"
    by (simp_all add: as_bob_def ex_private_post_def ex_draft_post_def)
  have r12: "routed_toggleLikeBlog ops 12 as_bob 90 ex_store =
       Inr (\<lparr>rl_liked = (\<not> bi_includes ops [] 2),
             rl_likes = length (if bi_includes ops [] 2 then bi_pull ops [] 2 else bi_push ops [] 2 90)\<rparr>,
            ex_store\<lparr>blogs := [ex_public_post, ex_draft_post,
               ex_private_post\<lparr>b_likes := (if bi_includes ops [] 2 then bi_pull ops [] 2
                                            else bi_push ops [] 2 90),
                               b_updatedAt := 90\<rparr>]\<rparr>)"
    using routed_toggleLikeBlog_found [OF ex_store_posts(3) ex_posts_valid(3), of ops as_bob 90]
    by (simp add: replace_blog_def ex_store_def ex_public_post_def ex_draft_post_def
        ex_private_post_def as_bob_def Let_def)
  have r11: "routed_toggleLikeBlog ops 11 as_bob 90 ex_store =
       Inr (\<lparr>rl_liked = (\<not> bi_includes ops [] 2),
             rl_likes = length (if bi_includes ops [] 2 then bi_pull ops [] 2 else bi_push ops [] 2 90)\<rparr>,
            ex_store\<lparr>blogs := [ex_public_post,
               ex_draft_post\<lparr>b_likes := (if bi_includes ops [] 2 then bi_pull ops [] 2
                                          else bi_push ops [] 2 90),
                             b_updatedAt := 90\<rparr>,
               ex_private_post]\<rparr>)"
    using routed_toggleLikeBlog_found [OF ex_store_posts(2) ex_posts_valid(2), of ops as_bob 90]
    by (simp add: replace_blog_def ex_store_def ex_public_post_def ex_draft_post_def
        ex_private_post_def as_bob_def Let_def)
  show ?thesis
    by (intro conjI ex_store_posts(3) nv(1) ex_store_posts(2) nv(2) own r12 r11)
qed


section \<open>Reading a post\<close>

lemma findById_user_D: "findById_user s i = Some a \<Longrightarrow> a \<in> set (users s) \<and> u_id a = i"
  unfolding findById_user_def by (rule find_Some_D)

lemma findById_blog_mem:
  assumes "ids_unique s" and "b \<in> set (blogs s)"
  shows "findById_blog s (b_id b) = Some b"
  using assms find_key_distinct_plain [of b_id "blogs s" b]
  by (simp add: ids_unique_def findById_blog_def)

lemma ex_store_ids_unique: "ids_unique ex_store"
  by (simp add: ids_unique_def ex_store_def ex_alice_def ex_bob_def ex_root_def ex_public_post_def
      ex_draft_post_def ex_private_post_def ex_comment_def ex_reply_def)

text \<open>
  The handler behind GET /api/blogs/:id returns every stored post to every caller and
  writes nothing.
\<close>

lemma routed_getBlog_found:
  assumes "findById_blog s i = Some b"
  shows "routed_getBlog i ru s =
           Inr (\<lparr>rr_blog = b, rr_author = map_option u_id (findById_user s (b_author b))\<rparr>, s)"
  using assms by (simp add: routed_getBlog_def)

lemma routed_getBlog_store: "store_after (routed_getBlog i ru s) s = s"
  by (simp add: routed_getBlog_def store_after_def split: option.splits)

lemma ex_author_alice: "map_option u_id (findById_user ex_store 1) = Some 1"
  by (simp add: findById_user_def ex_store_def ex_alice_def)

text \<open>
  Claim C6 fails on the handler that the route GET /api/blogs/:id runs: it has no
  visibility test. The post 11 is a draft, and an anonymous caller gets it; the post 12 is
  published but not public, and \<open>bob\<close>, who is neither its owner nor an admin, gets it.
\<close>

theorem C6_routed_getBlog_serves_hidden_posts:
  "findById_blog ex_store 11 = Some ex_draft_post \<and> b_status ex_draft_post = Draft
   \<and> \<not> publicly_visible ex_draft_post
   \<and> routed_getBlog 11 None ex_store
       = Inr (\<lparr>rr_blog = ex_draft_post, rr_author = Some 1\<rparr>, ex_store)
   \<and> findById_blog ex_store 12 = Some ex_private_post \<and> \<not> publicly_visible ex_private_post
   \<and> ru_id as_bob \<noteq> b_author ex_private_post \<and> ru_role as_bob \<noteq> Admin
   \<and> routed_getBlog 12 (Some as_bob) ex_store
       = Inr (\<lparr>rr_blog = ex_private_post, rr_author = Some 1\<rparr>, ex_store)"
proof -
  have d: "b_status ex_draft_post = Draft" "\<not> publicly_visible ex_draft_post"
    by (simp_all add: publicly_visible_def ex_draft_post_def)
  have p: "\<not> publicly_visible ex_private_post" "ru_id as_bob \<noteq> b_author ex_private_post"
    "ru_role as_bob \<noteq> Admin"
    by (simp_all add: publicly_visible_def ex_private_post_def as_bob_def)
  have g11: "routed_getBlog 11 None ex_store
       = Inr (\<lparr>rr_blog = ex_draft_post, rr_author = Some 1\<rparr>, ex_store)"
    using routed_getBlog_found [OF ex_store_posts(2), of None] ex_author_alice
    by (simp add: ex_draft_post_def)
  have g12: "routed_getBlog 12 (Some as_bob) ex_store
       = Inr (\<lparr>rr_blog = ex_private_post, rr_author = Some 1\<rparr>, ex_store)"
    using routed_getBlog_found [OF ex_store_posts(3), of "Some as_bob"] ex_author_alice
    by (simp add: ex_private_post_def)
  show ?thesis
    by (intro conjI ex_store_posts(2) d g11 ex_store_posts(3) p g12)
qed

text \<open>
  Claim C3 fails on the same handler: it has no view counter. The post 10 is publicly
  visible and has 4 views; an anonymous caller and \<open>bob\<close>, who is not its owner, read it,
  the post comes back with 4 views and the store is as before, so the counter still is 4.
\<close>

theorem C3_routed_getBlog_counts_no_view:
  "findById_blog ex_store 10 = Some ex_public_post \<and> publicly_visible ex_public_post
   \<and> b_views ex_public_post = 4 \<and> ru_id as_bob \<noteq> b_author ex_public_post
   \<and> routed_getBlog 10 None ex_store
       = Inr (\<lparr>rr_blog = ex_public_post, rr_author = Some 1\<rparr>, ex_store)
   \<and> routed_getBlog 10 (Some as_bob) ex_store
       = Inr (\<lparr>rr_blog = ex_public_post, rr_author = Some 1\<rparr>, ex_store)
   \<and> map_option b_views
       (findById_blog (store_after (routed_getBlog 10 None ex_store) ex_store) 10) = Some 4
   \<and> map_option b_views
       (findById_blog (store_after (routed_getBlog 10 (Some as_bob) ex_store) ex_store) 10) = Some 4"
proof -
  have v: "publicly_visible ex_public_post" "b_views ex_public_post = 4"
    "ru_id as_bob \<noteq> b_author ex_public_post"
    by (simp_all add: publicly_visible_def ex_public_post_def as_bob_def)
  have g: "routed_getBlog 10 ru ex_store
       = Inr (\<lparr>rr_blog = ex_public_post, rr_author = Some 1\<rparr>, ex_store)" for ru
    using routed_getBlog_found [OF ex_store_posts(1), of ru] ex_author_alice
    by (simp add: ex_public_post_def)
  have st: "map_option b_views
       (findById_blog (store_after (routed_getBlog 10 ru ex_store) ex_store) 10) = Some 4" for ru
    by (simp add: routed_getBlog_store ex_store_posts(1) v(2))
  show ?thesis
    by (intro conjI ex_store_posts(1) v g st)
qed

subsection \<open>The handler with the visibility policy\<close>

text \<open>
  \<open>getBlog\<close> of \<^verbatim>\<open>middlewares/blogController.js\<close>, which no route imports, has both the
  visibility test and the view counter.
\<close>

lemma getBlog_query:
  assumes "ids_unique s" and "b \<in> set (blogs s)"
  shows "find (\<lambda>d. b_id d = b_id b \<and> (ru = None \<longrightarrow> b_status d = Published \<and> b_isPublic d)) (blogs s)
           = (if ru = None \<longrightarrow> publicly_visible b then Some b else None)"
  using assms find_key_distinct [of b_id "blogs s" b "\<lambda>d. ru = None \<longrightarrow> b_status d = Published \<and> b_isPublic d"]
  by (simp add: ids_unique_def publicly_visible_def)

text \<open>The view increment leaves the post stored with one more view.\<close>

lemma views_inc_stored:
  assumes "ids_unique s" and "b \<in> set (blogs s)"
  shows "findById_blog (snd (findByIdAndUpdate_blog (b_id b) (\<lambda>d. d\<lparr>b_views := b_views d + 1\<rparr>) now s)) (b_id b)
           = Some (b\<lparr>b_views := b_views b + 1, b_updatedAt := now\<rparr>)"
proof -
  have f: "findById_blog s (b_id b) = Some b"
    using assms by (rule findById_blog_mem)
  let ?b' = "b\<lparr>b_views := b_views b + 1, b_updatedAt := now\<rparr>"
  have "findById_blog (s\<lparr>blogs := replace_blog ?b' (blogs s)\<rparr>) (b_id b) = Some ?b'"
    using f by (rule findById_blog_replace) simp
  then show ?thesis
    using f by (simp add: findByIdAndUpdate_blog_def Let_def)
qed

text \<open>\<open>getBlog\<close> on a stored post, with the query resolved.\<close>

lemma getBlog_anonymous:
  assumes "ids_unique s" and "b \<in> set (blogs s)"
  shows "getBlog (b_id b) None now s =
           (if publicly_visible b
            then Inr (\<lparr>br_blog = b\<lparr>b_views := b_views b + 1\<rparr>,
                       br_author = findById_user s (b_author b),
                       br_likeCount = length (b_likes b), br_isLiked = False\<rparr>,
                      snd (findByIdAndUpdate_blog (b_id b) (\<lambda>d. d\<lparr>b_views := b_views d + 1\<rparr>) now s))
            else Inl (ErrorResponse ''Blog not found'' 404))"
  using getBlog_query [OF assms, of None]
  by (simp add: getBlog_def getBlog_authorized_def getBlog_counts_view_def publicly_visible_def Let_def)

lemma getBlog_authenticated:
  assumes "ids_unique s" and "b \<in> set (blogs s)"
  shows "getBlog (b_id b) (Some u) now s =
           (case findById_user s (b_author b) of
              None \<Rightarrow> Inl TypeError
            | Some a \<Rightarrow>
                if \<not> publicly_visible b \<and> ru_id u \<noteq> b_author b \<and> ru_role u \<noteq> Admin
                then Inl (ErrorResponse ''Not authorized to view this blog'' 403)
                else if b_status b = Published \<and> ru_id u \<noteq> b_author b
                then Inr (\<lparr>br_blog = b\<lparr>b_views := b_views b + 1\<rparr>, br_author = Some a,
                           br_likeCount = length (b_likes b),
                           br_isLiked = blog_isLikedBy (ru_id u) b\<rparr>,
                          snd (findByIdAndUpdate_blog (b_id b) (\<lambda>d. d\<lparr>b_views := b_views d + 1\<rparr>) now s))
                else Inr (\<lparr>br_blog = b, br_author = Some a, br_likeCount = length (b_likes b),
                           br_isLiked = blog_isLikedBy (ru_id u) b\<rparr>, s))"
proof (cases "findById_user s (b_author b)")
  case None
  then show ?thesis
    using getBlog_query [OF assms, of "Some u"]
    by (simp add: getBlog_def getBlog_authorized_def getBlog_counts_view_def
        publicly_visible_def Let_def)
next
  case (Some a)
  then have ida: "u_id a = b_author b"
    using findById_user_D by blast
  show ?thesis
    using getBlog_query [OF assms, of "Some u"] Some ida
    by (simp add: getBlog_def getBlog_authorized_def getBlog_counts_view_def
        publicly_visible_def blog_isLikedBy_def Let_def)
qed

text \<open>
  For every stored post \<open>b\<close>: an anonymous caller gets the post from this \<open>getBlog\<close> exactly
  when its state is published and its public flag is true. A post that fails this test is
  returned to an authenticated caller only if the caller is its owner or an admin, and,
  when the author's account exists, to every such caller; a publicly visible post whose
  author's account exists is returned to every authenticated caller.
\<close>

lemma getBlog_view_policy:
  assumes "ids_unique s" and "b \<in> set (blogs s)"
  shows "(succeeds (getBlog (b_id b) None now s) \<longleftrightarrow> b_status b = Published \<and> b_isPublic b)
       \<and> (\<not> publicly_visible b \<and> succeeds (getBlog (b_id b) (Some u) now s)
             \<longrightarrow> ru_id u = b_author b \<or> ru_role u = Admin)
       \<and> (\<not> publicly_visible b \<and> findById_user s (b_author b) \<noteq> None
             \<and> (ru_id u = b_author b \<or> ru_role u = Admin)
             \<longrightarrow> succeeds (getBlog (b_id b) (Some u) now s))
       \<and> (publicly_visible b \<and> findById_user s (b_author b) \<noteq> None
             \<longrightarrow> succeeds (getBlog (b_id b) (Some u) now s))"
proof (intro conjI impI)
  show "succeeds (getBlog (b_id b) None now s) \<longleftrightarrow> b_status b = Published \<and> b_isPublic b"
    by (simp add: getBlog_anonymous [OF assms] succeeds_def publicly_visible_def)
next
  assume "\<not> publicly_visible b \<and> succeeds (getBlog (b_id b) (Some u) now s)"
  then show "ru_id u = b_author b \<or> ru_role u = Admin"
    by (auto simp: getBlog_authenticated [OF assms] succeeds_def split: option.splits if_splits)
next
  assume "\<not> publicly_visible b \<and> findById_user s (b_author b) \<noteq> None
             \<and> (ru_id u = b_author b \<or> ru_role u = Admin)"
  then show "succeeds (getBlog (b_id b) (Some u) now s)"
    by (auto simp: getBlog_authenticated [OF assms] succeeds_def split: if_splits)
next
  assume "publicly_visible b \<and> findById_user s (b_author b) \<noteq> None"
  then show "succeeds (getBlog (b_id b) (Some u) now s)"
    by (auto simp: getBlog_authenticated [OF assms] succeeds_def split: if_splits)
qed

text \<open>
  For every call of this \<open>getBlog\<close> on a stored post, the stored view counter afterwards is
  the old one plus one when the post's state is published and the caller is anonymous and
  the post public, or authenticated, not the owner, and either the post is public or the
  caller an admin (the author's account existing); in every other case it is the old one.
\<close>

lemma getBlog_view_counter:
  assumes "ids_unique s" and "b \<in> set (blogs s)"
  shows "map_option b_views (findById_blog (store_after (getBlog (b_id b) ru now s) s) (b_id b))
           = Some (if b_status b = Published
                      \<and> (case ru of
                            None \<Rightarrow> b_isPublic b
                          | Some u \<Rightarrow> findById_user s (b_author b) \<noteq> None
                                      \<and> ru_id u \<noteq> b_author b \<and> (b_isPublic b \<or> ru_role u = Admin))
                   then b_views b + 1 else b_views b)"
proof -
  note f = findById_blog_mem [OF assms]
  note st = views_inc_stored [OF assms, of now]
  show ?thesis
  proof (cases ru)
    case None
    show ?thesis
      unfolding None getBlog_anonymous [OF assms]
      using f st by (simp add: store_after_def publicly_visible_def)
  next
    case (Some u)
    show ?thesis
      unfolding Some getBlog_authenticated [OF assms]
      using f st by (auto simp: store_after_def publicly_visible_def split: option.splits)
  qed
qed


section \<open>The publication timestamp\<close>

text \<open>The save hook sets \<open>publishedAt\<close> on a modified status \<open>published\<close>, and never changes a set one.\<close>

lemma blog_pre_save_sets_publishedAt:
  "b_status b = Published \<Longrightarrow> b_publishedAt b = None \<Longrightarrow>
     b_publishedAt (blog_pre_save True now b) = Some now"
  by (simp add: blog_pre_save_def)

lemma blog_pre_save_keeps_publishedAt:
  "b_publishedAt b = Some d \<Longrightarrow> b_publishedAt (blog_pre_save m now b) = Some d"
  by (simp add: blog_pre_save_def)

text \<open>The paths that save: creating a published post stamps it, and a like leaves the stamp alone.\<close>

lemma createBlog_published:
  assumes "createBlog u body now s = Inr (b, s')" and "bb_status body = Some Published"
    and "bb_publishedAt body = None"
  shows "b_status b = Published \<and> b_publishedAt b = Some now"
  using assms
  by (auto simp: createBlog_def Blog_create_def blog_pre_save_def Let_def
      split: option.splits if_splits)

lemma toggleLikeBlog_keeps_publishedAt:
  assumes "findById_blog s i = Some b" and "toggleLikeBlog i u now s = Inr (r, s')"
  shows "map_option b_publishedAt (findById_blog s' i) = Some (b_publishedAt b)"
proof -
  have vis: "publicly_visible b"
    using assms by (auto simp: toggleLikeBlog_def publicly_visible_def split: if_splits)
  have val: "blog_valid b"
    using assms
    by (auto simp: toggleLikeBlog_def blog_save_def blog_toggleLike_def blog_valid_def Let_def
        case_prod_beta split: if_splits)
  let ?b' = "b\<lparr>b_likes := snd (toggleLike_array (ru_id u) now (b_likes b)), b_updatedAt := now\<rparr>"
  have s': "s' = s\<lparr>blogs := replace_blog ?b' (blogs s)\<rparr>"
    using toggleLikeBlog_visible [OF assms(1) vis val, of u now] assms(2) by (simp add: Let_def)
  have "b_id ?b' = i"
    using findById_blog_D [OF assms(1)] by simp
  with assms(1) have "findById_blog (s\<lparr>blogs := replace_blog ?b' (blogs s)\<rparr>) i = Some ?b'"
    by (rule findById_blog_replace)
  then show ?thesis by (simp add: s')
qed

text \<open>
  The path that does not save: the write of \<open>updateBlog\<close>, in both controllers, puts the
  body's fields into the post and nothing else, so \<open>publishedAt\<close> afterwards is the body's
  value if the body has one and the old value otherwise, whatever the status becomes.
\<close>

lemma findByIdAndUpdate_blog_body_publishedAt:
  assumes "findById_blog s i = Some b" and "findByIdAndUpdate_blog_body i body now s = Inr (r, s')"
  shows "\<exists>b'. r = Some b' \<and> findById_blog s' i = Some b'
           \<and> b_status b' = (case bb_status body of None \<Rightarrow> b_status b | Some v \<Rightarrow> v)
           \<and> b_publishedAt b' = (case bb_publishedAt body of None \<Rightarrow> b_publishedAt b | Some d \<Rightarrow> Some d)"
proof -
  let ?b' = "(apply_blog_body (cast_blog_body body) b)\<lparr>b_updatedAt := now\<rparr>"
  have run: "r = Some ?b' \<and> s' = s\<lparr>blogs := replace_blog ?b' (blogs s)\<rparr>"
    using assms
    by (auto simp: findByIdAndUpdate_blog_body_def findByIdAndUpdate_blog_def Let_def
        split: if_splits)
  have "b_id ?b' = i"
    using findById_blog_D [OF assms(1)] by (simp add: apply_blog_body_def)
  with assms(1) have "findById_blog (s\<lparr>blogs := replace_blog ?b' (blogs s)\<rparr>) i = Some ?b'"
    by (rule findById_blog_replace)
  then show ?thesis
    using run by (simp add: apply_blog_body_def cast_blog_body_def)
qed

lemma updateBlog_publishedAt:
  assumes "findById_blog s i = Some b" and "updateBlog i u body now s = Inr (r, s')"
  shows "\<exists>b'. r = Some b' \<and> findById_blog s' i = Some b'
           \<and> b_status b' = (case bb_status body of None \<Rightarrow> b_status b | Some v \<Rightarrow> v)
           \<and> b_publishedAt b' = (case bb_publishedAt body of None \<Rightarrow> b_publishedAt b | Some d \<Rightarrow> Some d)"
proof -
  let ?body' = "if bb_author body \<noteq> None \<and> ru_role u \<noteq> Admin then body\<lparr>bb_author := None\<rparr> else body"
  have "findByIdAndUpdate_blog_body i ?body' now s = Inr (r, s')"
    using assms by (auto simp: updateBlog_def Let_def split: if_splits)
  from findByIdAndUpdate_blog_body_publishedAt [OF assms(1) this]
  show ?thesis by (auto split: if_splits)
qed

lemma routed_updateBlog_publishedAt:
  assumes "findById_blog s i = Some b" and "routed_updateBlog i u body now s = Inr (r, s')"
  shows "\<exists>b'. r = Some b' \<and> findById_blog s' i = Some b'
           \<and> b_status b' = (case bb_status body of None \<Rightarrow> b_status b | Some v \<Rightarrow> v)
           \<and> b_publishedAt b' = (case bb_publishedAt body of None \<Rightarrow> b_publishedAt b | Some d \<Rightarrow> Some d)"
proof -
  have "findByIdAndUpdate_blog_body i body now s = Inr (r, s')"
    using assms by (auto simp: routed_updateBlog_def split: if_splits)
  from findByIdAndUpdate_blog_body_publishedAt [OF assms(1) this]
  show ?thesis .
qed

lemma createBlog_ex_new_post:
  "createBlog as_alice ex_body_new 80 ex_store
     = Inr (ex_new_post, ex_store\<lparr>blogs := [ex_public_post, ex_draft_post, ex_private_post, ex_new_post]\<rparr>)"
  by (simp add: createBlog_def Blog_create_def blog_pre_save_def blog_valid_def categories_def
      js_trim_def is_space_def new_oid_def ex_body_new_def ex_new_post_def ex_text_def
      ex_store_def ex_public_post_def ex_draft_post_def ex_private_post_def as_alice_def Let_def)

text \<open>
  Claim C1 fails on the code. \<open>alice\<close> creates a post with the status omitted (a draft with no
  \<open>publishedAt\<close>, lemma \<open>createBlog_ex_new_post\<close>) and then updates it with the body
  \<^verbatim>\<open>{ "status": "published" }\<close>. \<open>updateBlog\<close> writes with \<open>findByIdAndUpdate\<close>, which runs no save
  hook: the post returned and stored is published and its \<open>publishedAt\<close> is still unset. The
  handler behind the route PUT /api/blogs/:id writes the same way, with the same outcome.
\<close>

theorem C1_publish_by_update_leaves_publishedAt_unset:
  "updateBlog 13 as_alice ex_body_publish 95
       (ex_store\<lparr>blogs := [ex_public_post, ex_draft_post, ex_private_post, ex_new_post]\<rparr>)
     = Inr (Some (ex_new_post\<lparr>b_status := Published, b_updatedAt := 95\<rparr>),
            ex_store\<lparr>blogs := [ex_public_post, ex_draft_post, ex_private_post,
                                ex_new_post\<lparr>b_status := Published, b_updatedAt := 95\<rparr>]\<rparr>)
   \<and> routed_updateBlog 13 as_alice ex_body_publish 95
       (ex_store\<lparr>blogs := [ex_public_post, ex_draft_post, ex_private_post, ex_new_post]\<rparr>)
     = Inr (Some (ex_new_post\<lparr>b_status := Published, b_updatedAt := 95\<rparr>),
            ex_store\<lparr>blogs := [ex_public_post, ex_draft_post, ex_private_post,
                                ex_new_post\<lparr>b_status := Published, b_updatedAt := 95\<rparr>]\<rparr>)
   \<and> b_status ex_new_post = Draft
   \<and> b_status (ex_new_post\<lparr>b_status := Published, b_updatedAt := 95\<rparr>) = Published
   \<and> b_publishedAt (ex_new_post\<lparr>b_status := Published, b_updatedAt := 95\<rparr>) = None"
proof -
  let ?s = "ex_store\<lparr>blogs := [ex_public_post, ex_draft_post, ex_private_post, ex_new_post]\<rparr>"
  let ?b = "ex_new_post\<lparr>b_status := Published, b_updatedAt := 95\<rparr>"
  have w: "findByIdAndUpdate_blog_body 13 ex_body_publish 95 ?s
             = Inr (Some ?b, ex_store\<lparr>blogs := [ex_public_post, ex_draft_post, ex_private_post, ?b]\<rparr>)"
    by (simp add: findByIdAndUpdate_blog_body_def cast_blog_body_def blog_body_valid_def
        findByIdAndUpdate_blog_def findById_blog_def replace_blog_def
        apply_blog_body_def ex_body_publish_def ex_new_post_def ex_store_def ex_public_post_def
        ex_draft_post_def ex_private_post_def Let_def)
  have f: "findById_blog ?s 13 = Some ex_new_post"
    by (simp add: findById_blog_def ex_new_post_def ex_store_def ex_public_post_def
        ex_draft_post_def ex_private_post_def)
  have o: "b_author ex_new_post = ru_id as_alice" "bb_author ex_body_publish = None"
    by (simp_all add: ex_new_post_def as_alice_def ex_body_publish_def)
  have u1: "updateBlog 13 as_alice ex_body_publish 95 ?s
             = Inr (Some ?b, ex_store\<lparr>blogs := [ex_public_post, ex_draft_post, ex_private_post, ?b]\<rparr>)"
    using w by (simp add: updateBlog_def f o)
  have u2: "routed_updateBlog 13 as_alice ex_body_publish 95 ?s
             = Inr (Some ?b, ex_store\<lparr>blogs := [ex_public_post, ex_draft_post, ex_private_post, ?b]\<rparr>)"
    using w by (simp add: routed_updateBlog_def f o)
  have r: "b_status ex_new_post = Draft" "b_status ?b = Published" "b_publishedAt ?b = None"
    by (simp_all add: ex_new_post_def)
  show ?thesis
    by (intro conjI u1 u2 r)
qed


section \<open>Soft-deleting a comment\<close>

lemma content_valid_tombstone: "content_valid tombstone"
  by (simp add: content_valid_def tombstone_def)

lemma tombstoned_fields:
  "c_content (tombstoned now c) = tombstone" "c_isDeleted (tombstoned now c)"
  "c_deletedAt (tombstoned now c) = Some now" "c_id (tombstoned now c) = c_id c"
  "c_author (tombstoned now c) = c_author c" "c_blog (tombstoned now c) = c_blog c"
  "c_parentComment (tombstoned now c) = c_parentComment c"
  "c_createdAt (tombstoned now c) = c_createdAt c" "c_likes (tombstoned now c) = c_likes c"
  by (simp_all add: tombstoned_def comment_pre_save_def Let_def)

lemma deleteComment_Inr_D:
  assumes "deleteComment i u now s = Inr s'"
  shows "\<exists>c. findOne_live_comment s i = Some c
           \<and> (c_author c = ru_id u \<or> ru_role u = Admin)
           \<and> s' = s\<lparr>comments := replace_comment (tombstoned now c) (comments s)\<rparr>"
  using assms content_valid_tombstone
  by (auto simp: deleteComment_def softDelete_def comment_save_def tombstoned_def Let_def
      split: option.splits if_splits)

lemma findOne_live_comment_D:
  "findOne_live_comment s i = Some c \<Longrightarrow> c \<in> set (comments s) \<and> c_id c = i \<and> \<not> c_isDeleted c"
  unfolding findOne_live_comment_def using find_Some_D [of _ "comments s" c] by blast

lemma replaced_rows:
  assumes "d \<in> set (replace_comment c' cs)"
  shows "d = c' \<or> (d \<in> set cs \<and> c_id d \<noteq> c_id c')"
  using assms by (auto simp: replace_comment_def split: if_splits)

lemma replace_keeps_others:
  "f y = k \<Longrightarrow>
     filter (\<lambda>d. f d \<noteq> k) (map (\<lambda>d. if f d = f y then y else d) xs) = filter (\<lambda>d. f d \<noteq> k) xs"
  by (induction xs) auto

lemma page_rows_subset:
  "set (take l (drop k (rev (sort_key f (filter P xs))))) \<subseteq> {x \<in> set xs. P x}"
proof -
  have "set (take l (drop k (rev (sort_key f (filter P xs))))) \<subseteq> set (rev (sort_key f (filter P xs)))"
    by (meson set_take_subset set_drop_subset subset_trans)
  then show ?thesis by auto
qed

text \<open>
  The listing of \<open>getComments\<close> after a deleted document has been written back: the listing
  before without that document, in the same order.
\<close>

lemma filter_replace_hidden:
  "\<not> P y \<Longrightarrow>
     filter P (map (\<lambda>d. if f d = k then y else d) xs) = filter (\<lambda>d. f d \<noteq> k) (filter P xs)"
  by (induction xs) auto

lemma listing_after_replace:
  assumes "c_isDeleted c'"
  shows "rev (sort_key c_createdAt (filter (\<lambda>c. c_blog c = blogId \<and> \<not> c_isDeleted c)
                                      (replace_comment c' cs)))
         = filter (\<lambda>d. c_id d \<noteq> c_id c')
             (rev (sort_key c_createdAt (filter (\<lambda>c. c_blog c = blogId \<and> \<not> c_isDeleted c) cs)))"
proof -
  let ?P = "\<lambda>c. c_blog c = blogId \<and> \<not> c_isDeleted c"
  have "filter ?P (replace_comment c' cs) = filter (\<lambda>d. c_id d \<noteq> c_id c') (filter ?P cs)"
    unfolding replace_comment_def using assms by (intro filter_replace_hidden) simp
  then show ?thesis
    by (simp only: filter_sort [symmetric] rev_filter)
qed

text \<open>\<open>getComments\<close> with the first page as long as the collection: the whole listing.\<close>

lemma getComments_whole:
  assumes "findById_blog s blogId = Some blog" and "may_read_comments ru blog"
    and "length (comments s) \<le> n" and "0 < n"
  shows "getComments blogId None (Some n) ru s =
           Inr (mk_page 1 n
                  (length (filter (\<lambda>c. c_blog c = blogId \<and> \<not> c_isDeleted c) (comments s)))
                  (rev (sort_key c_createdAt
                          (filter (\<lambda>c. c_blog c = blogId \<and> \<not> c_isDeleted c) (comments s)))))"
proof -
  let ?F = "filter (\<lambda>c. c_blog c = blogId \<and> \<not> c_isDeleted c) (comments s)"
  have "length ?F \<le> n"
    using assms(3) length_filter_le [of _ "comments s"] by (meson le_trans)
  then show ?thesis
    using assms by (simp add: getComments_def param_or_def Let_def)
qed

lemma getComments_Inr_D:
  assumes "getComments blogId qpage qlimit ru s = Inr pg"
  shows "\<exists>blog. findById_blog s blogId = Some blog \<and> may_read_comments ru blog"
  using assms by (auto simp: getComments_def Let_def split: option.splits if_splits)

text \<open>
  Claim C2 as stated fails in its last part: \<open>getCommentReplies\<close> looks the parent up with
  \<^verbatim>\<open>isDeleted: false\<close>, so after \<open>bob\<close> has soft-deleted his comment 100 the call for its
  replies answers \<open>ErrorResponse "Comment not found" 404\<close>, although the reply 101 is stored and
  not deleted. Before the deletion the same call returned that reply.
\<close>

theorem C2_counterexample:
  "deleteComment 100 as_bob 99 ex_store = Inr ex_store_after_delete
   \<and> comments ex_store_after_delete = [ex_tombstoned, ex_reply]
   \<and> c_parentComment ex_reply = Some 100 \<and> \<not> c_isDeleted ex_reply
   \<and> getCommentReplies 100 None None None ex_store
        = Inr (mk_page 1 10 1 [\<lparr>rv_comment = ex_reply, rv_likeCount = 0, rv_isLiked = False\<rparr>])
   \<and> getCommentReplies 100 None None None ex_store_after_delete
        = Inl (ErrorResponse ''Comment not found'' 404)"
  by (simp add: deleteComment_def softDelete_def comment_save_def comment_pre_save_def
      findOne_live_comment_def replace_comment_def content_valid_def tombstone_def
      getCommentReplies_def may_read_comments_def findById_blog_def param_or_def mk_page_def
      ceil_div_def isLikedBy_array_def
      ex_store_after_delete_def ex_tombstoned_def ex_store_def ex_comment_def ex_reply_def
      ex_public_post_def as_bob_def Let_def)

text \<open>
  Claim C2 as amended. A successful \<open>deleteComment\<close> keeps the comment's row: the row stored
  under its id afterwards has the same id, author, post, parent, likes and creation time,
  its body is the tombstone text \<open>[Comment deleted]\<close>, its deleted flag is set and its
  deletion time is the time of the call. No other row changes. No page of \<open>getComments\<close>
  contains the comment any more; the whole listing of a post (the first page, as long as
  the collection) is afterwards the listing before without the deleted comment, in the
  same order; so every non-deleted reply to the deleted comment is still listed for its
  post, to every caller who may read the comments of that post. \<open>getCommentReplies\<close> on the
  soft-deleted comment fails with \<open>ErrorResponse "Comment not found" 404\<close>.
\<close>

theorem C2_softDelete:
  assumes "deleteComment i u now s = Inr s'"
  shows "(\<exists>c c'. findOne_live_comment s i = Some c \<and> findById_comment s' i = Some c'
            \<and> c_content c' = ''[Comment deleted]'' \<and> c_isDeleted c' \<and> c_deletedAt c' = Some now
            \<and> c_id c' = c_id c \<and> c_author c' = c_author c \<and> c_blog c' = c_blog c
            \<and> c_parentComment c' = c_parentComment c \<and> c_createdAt c' = c_createdAt c
            \<and> c_likes c' = c_likes c)
       \<and> length (comments s') = length (comments s)
       \<and> filter (\<lambda>d. c_id d \<noteq> i) (comments s') = filter (\<lambda>d. c_id d \<noteq> i) (comments s)
       \<and> (\<forall>pg. getComments blogId qpage qlimit ru s' = Inr pg \<longrightarrow> (\<forall>d \<in> set (pg_data pg). c_id d \<noteq> i))
       \<and> (\<forall>n pg. length (comments s) \<le> n \<and> getComments blogId None (Some n) ru s = Inr pg \<longrightarrow>
             getComments blogId None (Some n) ru s'
               = Inr (mk_page 1 n (length (filter (\<lambda>d. c_id d \<noteq> i) (pg_data pg)))
                        (filter (\<lambda>d. c_id d \<noteq> i) (pg_data pg))))
       \<and> (\<forall>r \<in> set (comments s). \<forall>blog n.
             c_parentComment r = Some i \<and> c_id r \<noteq> i \<and> \<not> c_isDeleted r
             \<and> findById_blog s (c_blog r) = Some blog \<and> may_read_comments ru blog
             \<and> length (comments s) \<le> n \<longrightarrow>
             (\<exists>pg. getComments (c_blog r) None (Some n) ru s' = Inr pg \<and> r \<in> set (pg_data pg)))
       \<and> getCommentReplies i qpage qlimit ru s' = Inl (ErrorResponse ''Comment not found'' 404)"
proof -
  from deleteComment_Inr_D [OF assms] obtain c where
    live: "findOne_live_comment s i = Some c" and
    s': "s' = s\<lparr>comments := replace_comment (tombstoned now c) (comments s)\<rparr>"
    by blast
  let ?c' = "tombstoned now c"
  from findOne_live_comment_D [OF live] have mem: "c \<in> set (comments s)" and idc: "c_id c = i"
    by simp_all
  have idc': "c_id ?c' = i"
    using idc by (simp add: tombstoned_fields)
  have del: "c_isDeleted ?c'"
    by (simp add: tombstoned_fields)
  have pos: "0 < length (comments s)"
    using mem by (cases "comments s") auto
  have blogs': "findById_blog s' = findById_blog s"
    by (rule ext) (simp add: s' findById_blog_def)
  have len': "length (comments s') = length (comments s)"
    by (simp add: s' replace_comment_def)
  have listing: "rev (sort_key c_createdAt (filter (\<lambda>c. c_blog c = k \<and> \<not> c_isDeleted c) (comments s')))
         = filter (\<lambda>d. c_id d \<noteq> i)
             (rev (sort_key c_createdAt (filter (\<lambda>c. c_blog c = k \<and> \<not> c_isDeleted c) (comments s))))" for k
    using listing_after_replace [OF del, of k "comments s"] by (simp add: s' idc')
  have whole: "getComments k None (Some n) ru s'
               = Inr (mk_page 1 n
                  (length (filter (\<lambda>d. c_id d \<noteq> i)
                     (rev (sort_key c_createdAt (filter (\<lambda>c. c_blog c = k \<and> \<not> c_isDeleted c) (comments s))))))
                  (filter (\<lambda>d. c_id d \<noteq> i)
                     (rev (sort_key c_createdAt (filter (\<lambda>c. c_blog c = k \<and> \<not> c_isDeleted c) (comments s))))))"
    if "findById_blog s k = Some blog" and "may_read_comments ru blog" and "length (comments s) \<le> n"
    for k blog n
  proof -
    have n: "0 < n" using pos that(3) by (rule less_le_trans)
    have f: "findById_blog s' k = Some blog" using that(1) by (simp add: blogs')
    have l: "length (comments s') \<le> n" using that(3) by (simp add: len')
    have "length (filter (\<lambda>c. c_blog c = k \<and> \<not> c_isDeleted c) (comments s'))
            = length (rev (sort_key c_createdAt (filter (\<lambda>c. c_blog c = k \<and> \<not> c_isDeleted c) (comments s'))))"
      by simp
    then show ?thesis
      unfolding getComments_whole [OF f that(2) l n] listing by (simp only: listing)
  qed
  have rows: "\<And>d. d \<in> set (comments s') \<Longrightarrow> c_id d = i \<Longrightarrow> c_isDeleted d"
  proof -
    fix d assume "d \<in> set (comments s')" and "c_id d = i"
    then have "d = ?c'"
      using replaced_rows [of d ?c' "comments s"] idc' by (auto simp: s')
    then show "c_isDeleted d" by (simp add: tombstoned_fields)
  qed
  have "find (\<lambda>d. c_id d = i) (comments s) \<noteq> None"
    using mem idc by (auto simp: find_None_iff)
  then obtain x where x: "find (\<lambda>d. c_id d = i) (comments s) = Some x"
    by auto
  have stored: "findById_comment s' i = Some ?c'"
    using find_key_replace [OF x idc'] by (simp add: s' findById_comment_def replace_comment_def idc')
  have part1: "\<exists>c c'. findOne_live_comment s i = Some c \<and> findById_comment s' i = Some c'
            \<and> c_content c' = ''[Comment deleted]'' \<and> c_isDeleted c' \<and> c_deletedAt c' = Some now
            \<and> c_id c' = c_id c \<and> c_author c' = c_author c \<and> c_blog c' = c_blog c
            \<and> c_parentComment c' = c_parentComment c \<and> c_createdAt c' = c_createdAt c
            \<and> c_likes c' = c_likes c"
  proof (intro exI conjI)
    show "findOne_live_comment s i = Some c" by (rule live)
    show "findById_comment s' i = Some ?c'" by (rule stored)
    show "c_content ?c' = ''[Comment deleted]''"
      using tombstoned_fields(1) [of now c] by (simp add: tombstone_def)
  qed (simp_all add: tombstoned_fields)
  note part2 = len'
  have part3: "filter (\<lambda>d. c_id d \<noteq> i) (comments s') = filter (\<lambda>d. c_id d \<noteq> i) (comments s)"
    using replace_keeps_others [of c_id ?c' i "comments s"] idc'
    by (simp add: s' replace_comment_def)
  have part4: "\<forall>pg. getComments blogId qpage qlimit ru s' = Inr pg \<longrightarrow> (\<forall>d \<in> set (pg_data pg). c_id d \<noteq> i)"
  proof (intro allI impI ballI)
    fix pg d
    assume g: "getComments blogId qpage qlimit ru s' = Inr pg" and d: "d \<in> set (pg_data pg)"
    let ?P = "\<lambda>c. c_blog c = blogId \<and> \<not> c_isDeleted c"
    from g have "pg_data pg = take (param_or qlimit 10) (drop ((param_or qpage 1 - 1) * param_or qlimit 10)
                    (rev (sort_key c_createdAt (filter ?P (comments s')))))"
      by (auto simp: getComments_def mk_page_def Let_def split: option.splits if_splits)
    with d page_rows_subset [of "param_or qlimit 10" "(param_or qpage 1 - 1) * param_or qlimit 10"
                               c_createdAt ?P "comments s'"]
    have "d \<in> set (comments s')" and "\<not> c_isDeleted d"
      by auto
    then show "c_id d \<noteq> i"
      using rows by blast
  qed
  have part5: "\<forall>n pg. length (comments s) \<le> n \<and> getComments blogId None (Some n) ru s = Inr pg \<longrightarrow>
             getComments blogId None (Some n) ru s'
               = Inr (mk_page 1 n (length (filter (\<lambda>d. c_id d \<noteq> i) (pg_data pg)))
                        (filter (\<lambda>d. c_id d \<noteq> i) (pg_data pg)))"
  proof (intro allI impI)
    fix n pg
    assume h: "length (comments s) \<le> n \<and> getComments blogId None (Some n) ru s = Inr pg"
    then have le: "length (comments s) \<le> n" and g: "getComments blogId None (Some n) ru s = Inr pg"
      by simp_all
    from getComments_Inr_D [OF g] obtain blog where
      b: "findById_blog s blogId = Some blog" "may_read_comments ru blog"
      by blast
    have n: "0 < n" using pos le by (rule less_le_trans)
    have "pg_data pg = rev (sort_key c_createdAt
                          (filter (\<lambda>c. c_blog c = blogId \<and> \<not> c_isDeleted c) (comments s)))"
      using g unfolding getComments_whole [OF b le n] by (auto simp: mk_page_def)
    then show "getComments blogId None (Some n) ru s'
               = Inr (mk_page 1 n (length (filter (\<lambda>d. c_id d \<noteq> i) (pg_data pg)))
                        (filter (\<lambda>d. c_id d \<noteq> i) (pg_data pg)))"
      using whole [OF b le] by simp
  qed
  have part6: "\<forall>r \<in> set (comments s). \<forall>blog n.
             c_parentComment r = Some i \<and> c_id r \<noteq> i \<and> \<not> c_isDeleted r
             \<and> findById_blog s (c_blog r) = Some blog \<and> may_read_comments ru blog
             \<and> length (comments s) \<le> n \<longrightarrow>
             (\<exists>pg. getComments (c_blog r) None (Some n) ru s' = Inr pg \<and> r \<in> set (pg_data pg))"
  proof (intro ballI allI impI)
    fix r blog n
    assume r: "r \<in> set (comments s)"
      and h: "c_parentComment r = Some i \<and> c_id r \<noteq> i \<and> \<not> c_isDeleted r
             \<and> findById_blog s (c_blog r) = Some blog \<and> may_read_comments ru blog
             \<and> length (comments s) \<le> n"
    then have b: "findById_blog s (c_blog r) = Some blog" "may_read_comments ru blog"
      and le: "length (comments s) \<le> n" and other: "c_id r \<noteq> i" and lv: "\<not> c_isDeleted r"
      by simp_all
    have "r \<in> set (filter (\<lambda>d. c_id d \<noteq> i)
                     (rev (sort_key c_createdAt
                        (filter (\<lambda>c. c_blog c = c_blog r \<and> \<not> c_isDeleted c) (comments s)))))"
      using r other lv by simp
    then show "\<exists>pg. getComments (c_blog r) None (Some n) ru s' = Inr pg \<and> r \<in> set (pg_data pg)"
      unfolding whole [OF b le] by (simp add: mk_page_def)
  qed
  have "findOne_live_comment s' i = None"
    using rows by (auto simp: findOne_live_comment_def find_None_iff)
  then have part7: "getCommentReplies i qpage qlimit ru s' = Inl (ErrorResponse ''Comment not found'' 404)"
    by (simp add: getCommentReplies_def Let_def)
  show ?thesis
    using part1 part2 part3 part4 part5 part6 part7 by (intro conjI)
qed

theorem C2_softDelete_witness:
  "deleteComment 100 as_bob 99 ex_store = Inr ex_store_after_delete
   \<and> findById_comment ex_store_after_delete 100 = Some ex_tombstoned
   \<and> c_content ex_tombstoned = ''[Comment deleted]'' \<and> c_isDeleted ex_tombstoned
   \<and> c_deletedAt ex_tombstoned = Some 99
   \<and> getComments 10 None None None ex_store = Inr (mk_page 1 10 2 [ex_reply, ex_comment])
   \<and> getComments 10 None None None ex_store_after_delete = Inr (mk_page 1 10 1 [ex_reply])
   \<and> length (comments ex_store) \<le> 2
   \<and> getComments 10 None (Some 2) None ex_store = Inr (mk_page 1 2 2 [ex_reply, ex_comment])
   \<and> getComments 10 None (Some 2) None ex_store_after_delete = Inr (mk_page 1 2 1 [ex_reply])
   \<and> ex_reply \<in> set (comments ex_store) \<and> c_parentComment ex_reply = Some 100
   \<and> c_id ex_reply \<noteq> 100 \<and> \<not> c_isDeleted ex_reply
   \<and> findById_blog ex_store (c_blog ex_reply) = Some ex_public_post
   \<and> may_read_comments None ex_public_post
   \<and> (\<exists>pg. getComments (c_blog ex_reply) None (Some 2) None ex_store_after_delete = Inr pg
            \<and> ex_reply \<in> set (pg_data pg))
   \<and> getCommentReplies 100 None None None ex_store_after_delete
        = Inl (ErrorResponse ''Comment not found'' 404)"
proof -
  have h: "deleteComment 100 as_bob 99 ex_store = Inr ex_store_after_delete"
    by (simp add: deleteComment_def softDelete_def comment_save_def comment_pre_save_def
        findOne_live_comment_def replace_comment_def content_valid_def tombstone_def
        ex_store_after_delete_def ex_tombstoned_def ex_store_def ex_comment_def ex_reply_def
        as_bob_def Let_def)
  have f: "findById_comment ex_store_after_delete 100 = Some ex_tombstoned"
    by (simp add: findById_comment_def ex_store_after_delete_def ex_tombstoned_def ex_comment_def)
  have g0: "getComments 10 None None None ex_store = Inr (mk_page 1 10 2 [ex_reply, ex_comment])"
    by (simp add: getComments_def may_read_comments_def findById_blog_def param_or_def
        mk_page_def ceil_div_def ex_store_def ex_comment_def ex_reply_def ex_public_post_def Let_def)
  have g1: "getComments 10 None None None ex_store_after_delete = Inr (mk_page 1 10 1 [ex_reply])"
    by (simp add: getComments_def may_read_comments_def findById_blog_def param_or_def
        mk_page_def ceil_div_def ex_store_after_delete_def ex_tombstoned_def
        ex_store_def ex_comment_def ex_reply_def ex_public_post_def Let_def)
  have le: "length (comments ex_store) \<le> 2"
    by (simp add: ex_store_def)
  have g2: "getComments 10 None (Some 2) None ex_store = Inr (mk_page 1 2 2 [ex_reply, ex_comment])"
    by (simp add: getComments_def may_read_comments_def findById_blog_def param_or_def
        mk_page_def ceil_div_def ex_store_def ex_comment_def ex_reply_def ex_public_post_def Let_def)
  have rp: "ex_reply \<in> set (comments ex_store)" "c_parentComment ex_reply = Some 100"
    "c_id ex_reply \<noteq> 100" "\<not> c_isDeleted ex_reply"
    by (simp_all add: ex_store_def ex_reply_def)
  have bl: "findById_blog ex_store (c_blog ex_reply) = Some ex_public_post"
    by (simp add: findById_blog_def ex_store_def ex_reply_def ex_public_post_def)
  have mr: "may_read_comments None ex_public_post"
    by (simp add: may_read_comments_def ex_public_post_def)
  note t = C2_softDelete [OF h, of 10 None None None]
  from t obtain c' where c': "findById_comment ex_store_after_delete 100 = Some c'"
     "c_content c' = ''[Comment deleted]''" "c_isDeleted c'" "c_deletedAt c' = Some 99"
    by blast
  from c' f have fields: "c_content ex_tombstoned = ''[Comment deleted]''" "c_isDeleted ex_tombstoned"
      "c_deletedAt ex_tombstoned = Some 99"
    by simp_all
  have t5: "getComments 10 None (Some 2) None ex_store_after_delete
              = Inr (mk_page 1 2 (length (filter (\<lambda>d. c_id d \<noteq> 100) (pg_data (mk_page 1 2 2 [ex_reply, ex_comment]))))
                       (filter (\<lambda>d. c_id d \<noteq> 100) (pg_data (mk_page 1 2 2 [ex_reply, ex_comment]))))"
    by (rule t [THEN conjunct2, THEN conjunct2, THEN conjunct2, THEN conjunct2, THEN conjunct1,
          rule_format, OF conjI [OF le g2]])
  have g3: "getComments 10 None (Some 2) None ex_store_after_delete = Inr (mk_page 1 2 1 [ex_reply])"
    unfolding t5 by (simp add: mk_page_def ceil_div_def ex_reply_def ex_comment_def)
  have t6: "\<exists>pg. getComments (c_blog ex_reply) None (Some 2) None ex_store_after_delete = Inr pg
            \<and> ex_reply \<in> set (pg_data pg)"
    by (rule t [THEN conjunct2, THEN conjunct2, THEN conjunct2, THEN conjunct2, THEN conjunct2,
          THEN conjunct1, rule_format, OF rp(1) conjI [OF rp(2) conjI [OF rp(3) conjI [OF rp(4)
            conjI [OF bl conjI [OF mr le]]]]]])
  from t have r: "getCommentReplies 100 None None None ex_store_after_delete
        = Inl (ErrorResponse ''Comment not found'' 404)"
    by (rule conjunct2 [THEN conjunct2, THEN conjunct2, THEN conjunct2, THEN conjunct2, THEN conjunct2])
  show ?thesis
    by (intro conjI h f fields g0 g1 le g2 g3 rp bl mr t6 r)
qed

end
